theory Spec2Isabelle
  imports Complex_Main "HOL-Library.Word"
begin

unbundle bit_operations_syntax

section \<open>The renderer core of js/render/core/renderer.js\<close>

text \<open>
  A shallow embedding of \<^verbatim>\<open>renderer.js\<close>. JavaScript objects live in an explicit store
  (one total function from addresses to records per class), thrown exceptions are values
  of \<open>js_error\<close>, and every call made on the WebGL context is recorded, in order, in a
  list of \<open>gl_call\<close>. The context itself is taken to be infallible: it records the call
  and returns. Numbers that the code only copies (matrix entries, positions of
  transforms) are rationals; a number stored into a \<^verbatim>\<open>Float32Array\<close> is rounded to a 32-bit
  float; the material state word is a 32-bit word, as the bitwise operators of JavaScript
  make it.
\<close>

subsection \<open>Values, errors and WebGL enums\<close>

type_synonym mat4 = "rat list"
type_synonym define_dict = "(string \<times> string) list"

text \<open>
  An element of a \<^verbatim>\<open>Float32Array\<close> that the code fills from numbers: a rational that a
  32-bit IEEE 754 float represents, or an infinity (the numbers given to the renderer are
  finite, so that \<^verbatim>\<open>NaN\<close> does not arise). Storing a number rounds it to the nearest
  such value, a tie going to the even significand: the significand has 24 bits, the
  least exponent is \<^verbatim>\<open>-126\<close> (below it the values are \<^verbatim>\<open>2^-149\<close> apart), and what
  rounds to \<^verbatim>\<open>2^128\<close> or beyond is an infinity.
\<close>

datatype float32 = F32 rat | F32_Infinity | F32_NegInfinity

type_synonym vec3 = "float32 list"

text \<open>The number of binary digits of a positive integer.\<close>

function bit_length :: "int \<Rightarrow> nat" where
  "bit_length n = (if n \<le> 0 then 0 else Suc (bit_length (n div 2)))"
  by pat_completeness auto
termination
  by (relation "measure nat") auto

declare bit_length.simps [simp del]

text \<open>The exponent of a positive rational: the greatest \<open>e\<close> such that 2 to the power \<open>e\<close> is at most \<open>x\<close>.\<close>

definition floor_log2 :: "rat \<Rightarrow> int" where
  "floor_log2 x =
    (case quotient_of x of
       (p, q) \<Rightarrow>
         (let e = int (bit_length p) - int (bit_length q)
          in if power_int 2 e \<le> x then e else e - 1))"

definition round_half_even :: "rat \<Rightarrow> int" where
  "round_half_even n =
    (let f = \<lfloor>n\<rfloor>; d = n - of_int f
     in if d < 1 / 2 then f else if 1 / 2 < d then f + 1 else if even f then f else f + 1)"

text \<open>The store of a number into a \<^verbatim>\<open>Float32Array\<close> (\<^verbatim>\<open>Math.fround\<close>).\<close>

definition fround :: "rat \<Rightarrow> float32" where
  "fround x =
    (if x = 0 then F32 0
     else
       (let e = max (floor_log2 \<bar>x\<bar>) (- 126);
            ulp = power_int 2 (e - 23);
            r = of_int (round_half_even (x / ulp)) * ulp
        in if 2 ^ 128 \<le> r then F32_Infinity
           else if r \<le> - (2 ^ 128) then F32_NegInfinity
           else F32 r))"

datatype js_error = Error string | TypeError string

definition GL_NEVER :: int where "GL_NEVER = 0x0200"
definition GL_CULL_FACE :: int where "GL_CULL_FACE = 0x0B44"
definition GL_BLEND :: int where "GL_BLEND = 0x0BE2"
definition GL_DEPTH_TEST :: int where "GL_DEPTH_TEST = 0x0B71"
definition GL_STENCIL_TEST :: int where "GL_STENCIL_TEST = 0x0B90"
definition GL_TEXTURE_2D :: int where "GL_TEXTURE_2D = 0x0DE1"
definition GL_TEXTURE_2D_ARRAY :: int where "GL_TEXTURE_2D_ARRAY = 0x8C1A"
definition GL_TEXTURE0 :: int where "GL_TEXTURE0 = 0x84C0"
definition GL_ARRAY_BUFFER :: int where "GL_ARRAY_BUFFER = 0x8892"
definition GL_ELEMENT_ARRAY_BUFFER :: int where "GL_ELEMENT_ARRAY_BUFFER = 0x8893"
definition GL_STATIC_DRAW :: int where "GL_STATIC_DRAW = 0x88E4"
definition GL_UNSIGNED_BYTE :: int where "GL_UNSIGNED_BYTE = 0x1401"
definition GL_LINEAR :: int where "GL_LINEAR = 0x2601"
definition GL_LINEAR_MIPMAP_LINEAR :: int where "GL_LINEAR_MIPMAP_LINEAR = 0x2703"
definition GL_REPEAT :: int where "GL_REPEAT = 0x2901"
definition GL_CLAMP_TO_EDGE :: int where "GL_CLAMP_TO_EDGE = 0x812F"
definition GL_TEXTURE_MAG_FILTER :: int where "GL_TEXTURE_MAG_FILTER = 0x2800"
definition GL_TEXTURE_MIN_FILTER :: int where "GL_TEXTURE_MIN_FILTER = 0x2801"
definition GL_TEXTURE_WRAP_S :: int where "GL_TEXTURE_WRAP_S = 0x2802"
definition GL_TEXTURE_WRAP_T :: int where "GL_TEXTURE_WRAP_T = 0x2803"

text \<open>
  A uniform reference is the name looked up in \<^verbatim>\<open>program.uniform\<close> together with the
  location found there (\<open>None\<close> for \<^verbatim>\<open>undefined\<close>). The name is kept so that a call can
  be told apart from another one even when the program does not declare the uniform.
\<close>

type_synonym uref = "string \<times> nat option"

datatype gl_call =
    Viewport rat rat rat rat
  | Enable int
  | Disable int
  | ColorMask bool bool bool bool
  | DepthMask bool
  | StencilMask int
  | BlendFunc int int
  | DepthFunc int
  | UseProgram nat
  | Uniform1i uref int
  | Uniform1ui uref nat
  | Uniform1f uref rat
  | Uniform1fv uref "float32 list"
  | Uniform2fv uref "float32 list"
  | Uniform3fv uref "float32 list"
  | Uniform4fv uref "float32 list"
  | UniformMatrix4fv uref bool "mat4 option"
  | ActiveTexture int
  | BindTexture int "nat option"
  | CreateTexture nat
  | TexImage2D_pixels int int int int int int int int nat
  | TexImage2D_source int int int int int nat
  | GenerateMipmap int
  | TexParameteri int int int
  | CreateBuffer nat
  | BindBuffer int "nat option"
  | BufferData int nat int
  | CreateVertexArrayOES nat
  | BindVertexArrayOES "nat option"
  | EnableVertexAttribArray nat
  | DisableVertexAttribArray nat
  | VertexAttribPointer "nat option" int int bool int int
  | DrawElements int int int int
  | DrawArrays int int int

subsection \<open>Texture descriptors (the classes of texture.js, as the renderer reads them)\<close>

datatype texture_kind = ExternalTexture | DataTexture | ImageTexture | VideoTexture

record texture_sampler =
  minFilter :: "int option"
  magFilter :: "int option"
  wrapS :: "int option"
  wrapT :: "int option"

record texture =
  tx_kind :: texture_kind
  textureKey :: "string option"
  tx_sampler :: texture_sampler
  tx_mipmap :: bool
  tx_width :: int
  tx_height :: int
  tx_format :: int
  tx_type :: int
  tx_data :: nat
  tx_video :: nat

text \<open>\<^verbatim>\<open>a || b\<close> on a value that is \<^verbatim>\<open>null\<close> or a number: 0 is falsy as well.\<close>

definition js_or :: "int option \<Rightarrow> int \<Rightarrow> int" where
  "js_or a b = (case a of None \<Rightarrow> b | Some v \<Rightarrow> if v = 0 then b else v)"

text \<open>
  \<^verbatim>\<open>(n & (n - 1)) === 0\<close>: both operands go through ToInt32, which is \<open>word_of_int\<close>
  on an integral number.
\<close>

definition isPowerOfTwo :: "int \<Rightarrow> bool" where
  "isPowerOfTwo n = ((word_of_int n :: 32 word) AND word_of_int (n - 1) = 0)"

definition setSamplerParameters :: "texture \<Rightarrow> gl_call list" where
  "setSamplerParameters tx =
    (let sampler = tx_sampler tx;
         powerOfTwo = (isPowerOfTwo (tx_width tx) \<and> isPowerOfTwo (tx_height tx));
         mipmap = (powerOfTwo \<and> tx_mipmap tx);
         minF = js_or (minFilter sampler) (if mipmap then GL_LINEAR_MIPMAP_LINEAR else GL_LINEAR);
         wS = js_or (wrapS sampler) (if powerOfTwo then GL_REPEAT else GL_CLAMP_TO_EDGE);
         wT = js_or (wrapT sampler) (if powerOfTwo then GL_REPEAT else GL_CLAMP_TO_EDGE)
     in (if mipmap then [GenerateMipmap GL_TEXTURE_2D] else []) @
        [TexParameteri GL_TEXTURE_2D GL_TEXTURE_MAG_FILTER (js_or (magFilter sampler) GL_LINEAR),
         TexParameteri GL_TEXTURE_2D GL_TEXTURE_MIN_FILTER minF,
         TexParameteri GL_TEXTURE_2D GL_TEXTURE_WRAP_S wS,
         TexParameteri GL_TEXTURE_2D GL_TEXTURE_WRAP_T wT])"


subsection \<open>Constants imported from material.js\<close>

text \<open>
  \<^verbatim>\<open>CAP\<close>, \<^verbatim>\<open>MAT_STATE\<close>, \<^verbatim>\<open>RENDER_ORDER\<close> and \<^verbatim>\<open>stateToBlendFunc\<close> are imported from
  \<^verbatim>\<open>material.js\<close>, which is not among the sources. They are a parameter of the model;
  the theorems name the properties of the constants they rely on.
\<close>

record mat_consts =
  CAP_CULL_FACE :: "32 word"
  CAP_BLEND :: "32 word"
  CAP_DEPTH_TEST :: "32 word"
  CAP_STENCIL_TEST :: "32 word"
  CAP_COLOR_MASK :: "32 word"
  CAP_DEPTH_MASK :: "32 word"
  CAP_STENCIL_MASK :: "32 word"
  CAPS_RANGE :: "32 word"
  BLEND_SRC_SHIFT :: nat
  BLEND_SRC_RANGE :: "32 word"
  BLEND_DST_SHIFT :: nat
  BLEND_DST_RANGE :: "32 word"
  BLEND_FUNC_RANGE :: "32 word"
  DEPTH_FUNC_SHIFT :: nat
  DEPTH_FUNC_RANGE :: "32 word"
  RENDER_ORDER_OPAQUE :: nat
  RENDER_ORDER_TRANSPARENT :: nat
  RENDER_ORDER_DEFAULT :: nat
  stateToBlendFunc :: "32 word \<Rightarrow> 32 word \<Rightarrow> nat \<Rightarrow> int"

subsection \<open>Vertex attributes\<close>

definition ATTRIB_names :: "string list" where
  "ATTRIB_names = [''POSITION'', ''NORMAL'', ''TANGENT'', ''TEXCOORD_0'', ''TEXCOORD_1'', ''COLOR_0'']"

definition ATTRIB :: "string \<Rightarrow> nat option" where
  "ATTRIB n =
    (if n = ''POSITION'' then Some 1 else if n = ''NORMAL'' then Some 2
     else if n = ''TANGENT'' then Some 3 else if n = ''TEXCOORD_0'' then Some 4
     else if n = ''TEXCOORD_1'' then Some 5 else if n = ''COLOR_0'' then Some 6 else None)"

text \<open>A name outside the table gives \<^verbatim>\<open>undefined\<close>, which \<^verbatim>\<open>|=\<close> and \<^verbatim>\<open>&\<close> read as 0.\<close>

definition ATTRIB_MASK :: "string \<Rightarrow> 32 word" where
  "ATTRIB_MASK n =
    (if n = ''POSITION'' then 0x0001 else if n = ''NORMAL'' then 0x0002
     else if n = ''TANGENT'' then 0x0004 else if n = ''TEXCOORD_0'' then 0x0008
     else if n = ''TEXCOORD_1'' then 0x0010 else if n = ''COLOR_0'' then 0x0020 else 0)"

subsection \<open>Descriptors handed in by the scene graph\<close>

record primitive_attribute =
  pa_name :: string
  pa_buffer :: nat
  pa_componentCount :: int
  pa_componentType :: int
  pa_stride :: int
  pa_byteOffset :: int
  pa_normalized :: bool

record primitive =
  p_mode :: int
  p_elementCount :: int
  p_attributes :: "primitive_attribute list"
  p_indexBuffer :: "nat option"
  p_indexByteOffset :: int
  p_indexType :: int

datatype uniform_value = Scalar rat | Array "rat list"

subsection \<open>Objects of the renderer\<close>

record render_buffer =
  buf_target :: int
  buf_usage :: int
  buf_length :: nat
  buf_buffer :: "nat option"
  buf_resolved :: bool
  buf_glBuffer :: nat

record render_attribute =
  attrib_index :: "nat option"
  componentCount :: int
  componentType :: int
  stride :: int
  byteOffset :: int
  normalized :: bool

record render_primitive =
  rp_activeFrameId :: nat
  rp_instances :: "nat list"
  rp_material :: "nat option"
  rp_mode :: int
  rp_elementCount :: int
  rp_promise :: bool
  rp_vao :: "nat option"
  rp_complete :: bool
  rp_attributeBuffers :: "(nat \<times> render_attribute list) list"
  rp_attributeMask :: "32 word"
  rp_indexBuffer :: "nat option"
  rp_indexByteOffset :: int
  rp_indexType :: int

text \<open>
  What \<^verbatim>\<open>_getRenderTexture\<close> returns: \<^verbatim>\<open>null\<close>, a \<^verbatim>\<open>RenderTexture\<close> of the store, or,
  because the cache is a plain object tested with \<^verbatim>\<open>in\<close>, a property that the cache
  inherits from \<^verbatim>\<open>Object.prototype\<close>.
\<close>

datatype tex_ref = TexNull | TexObj nat | TexProto string

record render_texture =
  rt_texture :: nat
  rt_complete :: bool
  rt_activeFrameId :: nat
  rt_activeCallback :: "texture option"
  rt_isExternalTexture :: bool
  rt_isArray :: bool

text \<open>A \<^verbatim>\<open>RenderMaterialSampler\<close> is (uniform name, render texture, index); a
  \<^verbatim>\<open>RenderMaterialUniform\<close> is (uniform name, location, length, value).\<close>

type_synonym render_sampler = "string \<times> tex_ref \<times> nat"
type_synonym render_uniform = "string \<times> nat option \<times> int \<times> float32 list"

record render_material =
  rm_program :: nat
  rm_state :: "32 word"
  rm_activeFrameId :: nat
  rm_completeForActiveFrame :: bool
  rm_samplers :: "render_sampler list"
  rm_uniforms :: "render_uniform list"
  rm_firstBind :: bool
  rm_renderOrder :: nat

record material =
  materialName :: "string option"
  vertexSource :: "string option"
  fragmentSource :: "string option"
  m_state :: "32 word"
  m_samplers :: "(string \<times> texture option) list"
  m_uniforms :: "(string \<times> int \<times> uniform_value) list"
  renderOrder :: nat
  getProgramDefines :: "render_primitive \<Rightarrow> define_dict"


subsection \<open>Programs and the WebGL context\<close>

text \<open>
  The entry code that \<^verbatim>\<open>_getMaterialProgram\<close> appends to the author's shader is one of
  eight constant strings of the source; the model keeps the name of the constant.
\<close>

datatype shader_entry =
    VERTEX_SHADER_ENTRY | VERTEX_SHADER_MULTI_ENTRY
  | VERTEX_SHADER_DEPTH_ENTRY | VERTEX_SHADER_MULTI_DEPTH_ENTRY
  | FRAGMENT_SHADER_ENTRY | FRAGMENT_SHADER_MULTI_ENTRY
  | FRAGMENT_SHADER_DEPTH_ENTRY | FRAGMENT_SHADER_MULTI_DEPTH_ENTRY

text \<open>The arguments of \<^verbatim>\<open>new Program(...)\<close>: the full vertex source (author's text and
  entry), the full fragment source (precision header, author's text and entry), the
  defines, the extensions and the layouts.\<close>

record program_source =
  ps_vertex :: "string \<times> shader_entry"
  ps_fragment :: "string \<times> string \<times> shader_entry"
  ps_defines :: define_dict
  ps_extensions :: "string list"
  ps_layouts :: "string list"

text \<open>
  Modelled from the spec: the class \<^verbatim>\<open>Program\<close> of \<^verbatim>\<open>program.js\<close> is not among the
  sources. A compiled program exposes a name-indexed lookup of the uniforms it declares
  (a missing name is \<^verbatim>\<open>undefined\<close>) and runs the callbacks registered with
  \<^verbatim>\<open>onNextUse\<close> at its next \<^verbatim>\<open>use()\<close>. A callback of \<^verbatim>\<open>_getMaterialProgram\<close> is kept
  as the list of sampler names of the material it closes over.
\<close>

record program =
  prog_uniform :: "string \<Rightarrow> nat option"
  prog_nextUse :: "string list list"

record gl_context =
  gl_vaoExt :: bool
  gl_mvExt :: bool
  gl_fragHighPrecision :: int
  gl_link :: "program_source \<Rightarrow> string \<Rightarrow> nat option"

text \<open>
  A promise continuation that has not run yet: the \<^verbatim>\<open>then\<close> of
  \<^verbatim>\<open>RenderPrimitive.waitForComplete\<close>, with the buffers whose promises its
  \<^verbatim>\<open>Promise.all\<close> awaits, or the \<^verbatim>\<open>then\<close> of \<^verbatim>\<open>texture.waitForComplete()\<close> in
  \<^verbatim>\<open>_getRenderTexture\<close>.
\<close>

datatype task = CompletePrimitive nat "nat list" | UploadTexture nat texture

subsection \<open>The renderer and the store\<close>

record rstate =
  r_gl :: gl_context
  frameId :: nat
  programCache :: "string \<Rightarrow> nat option"
  textureCache :: "string \<Rightarrow> nat option"
  renderPrimitives :: "nat list option list"
  cameraPositions :: "vec3 list"
  vaoExt :: bool
  defaultFragPrecision :: string
  depthMaskNeedsReset :: bool
  colorMaskNeedsReset :: bool
  globalLightColor :: vec3
  globalLightDir :: vec3
  mv_ext :: bool
  multiview :: bool
  multisampledMultiview :: bool
  r_useDepth :: bool
  buffers :: "nat \<Rightarrow> render_buffer"
  prims :: "nat \<Rightarrow> render_primitive"
  materials :: "nat \<Rightarrow> render_material"
  textures :: "nat \<Rightarrow> render_texture"
  programs :: "nat \<Rightarrow> program"
  next_buffer :: nat
  next_prim :: nat
  next_material :: nat
  next_texture :: nat
  next_program :: nat
  next_handle :: nat
  tasks :: "task list"
  node_activeFrameId :: "nat \<Rightarrow> nat"
  node_worldMatrix :: "nat \<Rightarrow> mat4"
  video_playing :: "nat \<Rightarrow> bool"

text \<open>The result of a method: the new state, the WebGL calls made, and the exception thrown
  or the value returned.\<close>

type_synonym 'a eff = "rstate \<times> gl_call list \<times> (js_error + 'a)"

subsection \<open>Construction\<close>

definition DEF_LIGHT_DIR :: vec3 where "DEF_LIGHT_DIR = map fround [- (1/10), - 1, - (2/10)]"
definition DEF_LIGHT_COLOR :: vec3 where "DEF_LIGHT_COLOR = map fround [3, 3, 3]"

text \<open>\<^verbatim>\<open>createWebGLContext\<close>: what \<^verbatim>\<open>canvas.getContext('webgl2', glAttribs)\<close> returns is
  given by the host.\<close>

definition createWebGLContext :: "gl_context option \<Rightarrow> gl_context option" where
  "createWebGLContext canvas_context = (case canvas_context of None \<Rightarrow> None | Some c \<Rightarrow> Some c)"

text \<open>
  The constructor stores \<^verbatim>\<open>gl || createWebGLContext()\<close> in \<^verbatim>\<open>this._gl\<close> and then calls
  \<^verbatim>\<open>gl.getExtension\<close> on the parameter itself.
\<close>

definition Renderer :: "mat_consts \<Rightarrow> gl_context option \<Rightarrow> gl_context option \<Rightarrow> bool \<Rightarrow> bool \<Rightarrow> bool
    \<Rightarrow> js_error + rstate" where
  "Renderer K canvas_context gl mv msmv ud =
    (case gl of
       None \<Rightarrow>
         (let this_gl = createWebGLContext canvas_context
          in Inl (TypeError ''Cannot read properties of null (reading 'getExtension')''))
     | Some g \<Rightarrow>
         (let this_gl = g in Inr \<lparr>
                 r_gl = this_gl, frameId = 0,
                 programCache = (\<lambda>_. None), textureCache = (\<lambda>_. None),
                 renderPrimitives = replicate (RENDER_ORDER_DEFAULT K) None,
                 cameraPositions = [],
                 vaoExt = gl_vaoExt g,
                 defaultFragPrecision = (if gl_fragHighPrecision g > 0 then ''highp'' else ''mediump''),
                 depthMaskNeedsReset = False, colorMaskNeedsReset = False,
                 globalLightColor = DEF_LIGHT_COLOR, globalLightDir = DEF_LIGHT_DIR,
                 mv_ext = gl_mvExt g,
                 multiview = (mv \<and> gl_mvExt g),
                 multisampledMultiview = msmv,
                 r_useDepth = ud,
                 buffers = (\<lambda>_. \<lparr>buf_target = 0, buf_usage = 0, buf_length = 0, buf_buffer = None,
                                  buf_resolved = False, buf_glBuffer = 0\<rparr>),
                 prims = (\<lambda>_. \<lparr>rp_activeFrameId = 0, rp_instances = [], rp_material = None,
                                rp_mode = 0, rp_elementCount = 0, rp_promise = False, rp_vao = None,
                                rp_complete = False, rp_attributeBuffers = [], rp_attributeMask = 0,
                                rp_indexBuffer = None, rp_indexByteOffset = 0, rp_indexType = 0\<rparr>),
                 materials = (\<lambda>_. \<lparr>rm_program = 0, rm_state = 0, rm_activeFrameId = 0,
                                    rm_completeForActiveFrame = False, rm_samplers = [],
                                    rm_uniforms = [], rm_firstBind = True, rm_renderOrder = 0\<rparr>),
                 textures = (\<lambda>_. \<lparr>rt_texture = 0, rt_complete = False, rt_activeFrameId = 0,
                                   rt_activeCallback = None, rt_isExternalTexture = False,
                                   rt_isArray = False\<rparr>),
                 programs = (\<lambda>_. \<lparr>prog_uniform = (\<lambda>_. None), prog_nextUse = []\<rparr>),
                 next_buffer = 0, next_prim = 0, next_material = 0, next_texture = 0,
                 next_program = 0, next_handle = 0,
                 tasks = [],
                 node_activeFrameId = (\<lambda>_. 0),
                 node_worldMatrix = (\<lambda>_. []),
                 video_playing = (\<lambda>_. False)\<rparr>))"


subsection \<open>Buffers\<close>

text \<open>The \<^verbatim>\<open>data\<close> argument of \<^verbatim>\<open>createRenderBuffer\<close>: available at once (with its byte
  length) or a promise.\<close>

datatype buffer_data = Sync nat | Async

definition createRenderBuffer :: "rstate \<Rightarrow> int \<Rightarrow> buffer_data \<Rightarrow> int \<Rightarrow> rstate \<times> gl_call list \<times> nat" where
  "createRenderBuffer st target data usage =
    (let glBuffer = next_handle st; b = next_buffer st;
         st1 = st\<lparr>next_handle := Suc glBuffer, next_buffer := Suc b\<rparr>
     in case data of
          Async \<Rightarrow>
            (st1\<lparr>buffers := (buffers st1)(b := \<lparr>buf_target = target, buf_usage = usage,
                 buf_length = 0, buf_buffer = None, buf_resolved = False, buf_glBuffer = glBuffer\<rparr>)\<rparr>,
             [CreateBuffer glBuffer], b)
        | Sync byteLength \<Rightarrow>
            (st1\<lparr>buffers := (buffers st1)(b := \<lparr>buf_target = target, buf_usage = usage,
                 buf_length = byteLength, buf_buffer = Some glBuffer, buf_resolved = True,
                 buf_glBuffer = glBuffer\<rparr>)\<rparr>,
             [CreateBuffer glBuffer, BindBuffer target (Some glBuffer), BufferData target byteLength usage],
             b))"

text \<open>The promise given to \<^verbatim>\<open>createRenderBuffer\<close> resolves with data of the given byte
  length: the two \<^verbatim>\<open>then\<close> callbacks of \<^verbatim>\<open>createRenderBuffer\<close> and of the
  \<^verbatim>\<open>RenderBuffer\<close> constructor run. A promise resolves at most once.\<close>

definition resolveBuffer :: "rstate \<Rightarrow> nat \<Rightarrow> nat \<Rightarrow> rstate \<times> gl_call list" where
  "resolveBuffer st b byteLength =
    (let rb = buffers st b
     in if buf_resolved rb \<or> next_buffer st \<le> b then (st, [])
        else (st\<lparr>buffers := (buffers st)(b := rb\<lparr>buf_length := byteLength,
                    buf_buffer := Some (buf_glBuffer rb), buf_resolved := True\<rparr>)\<rparr>,
              [BindBuffer (buf_target rb) (Some (buf_glBuffer rb)),
               BufferData (buf_target rb) byteLength (buf_usage rb)]))"

subsection \<open>Render primitives\<close>

fun add_attribute :: "(nat \<times> render_attribute list) list \<Rightarrow> nat \<Rightarrow> render_attribute
    \<Rightarrow> (nat \<times> render_attribute list) list" where
  "add_attribute [] b ra = [(b, [ra])]"
| "add_attribute ((b', ras) # rest) b ra =
    (if b' = b then (b', ras @ [ra]) # rest else (b', ras) # add_attribute rest b ra)"

definition RenderPrimitiveAttribute :: "primitive_attribute \<Rightarrow> render_attribute" where
  "RenderPrimitiveAttribute a =
    \<lparr>attrib_index = ATTRIB (pa_name a), componentCount = pa_componentCount a,
     componentType = pa_componentType a, stride = pa_stride a, byteOffset = pa_byteOffset a,
     normalized = pa_normalized a\<rparr>"

text \<open>\<^verbatim>\<open>RenderPrimitive.waitForComplete\<close>: the promise is cached; a new one awaits the
  promises of the buffers whose \<^verbatim>\<open>_buffer\<close> is still \<^verbatim>\<open>null\<close>.\<close>

definition pendingBuffers :: "rstate \<Rightarrow> render_primitive \<Rightarrow> nat list" where
  "pendingBuffers st rp =
    filter (\<lambda>b. buf_buffer (buffers st b) = None) (map fst (rp_attributeBuffers rp)) @
    (case rp_indexBuffer rp of
       None \<Rightarrow> []
     | Some b \<Rightarrow> if buf_buffer (buffers st b) = None then [b] else [])"

definition waitForComplete :: "rstate \<Rightarrow> nat \<Rightarrow> rstate" where
  "waitForComplete st p =
    (let rp = prims st p
     in if rp_promise rp then st
        else if rp_material rp = None then st
        else st\<lparr>prims := (prims st)(p := rp\<lparr>rp_promise := True\<rparr>),
                tasks := tasks st @ [CompletePrimitive p (pendingBuffers st rp)]\<rparr>)"

text \<open>\<^verbatim>\<open>setPrimitive\<close>; the bounding box, which the renderer never reads, is left out.\<close>

definition setPrimitive :: "rstate \<Rightarrow> nat \<Rightarrow> primitive \<Rightarrow> rstate" where
  "setPrimitive st p g =
    (let rp = prims st p;
         rp1 = rp\<lparr>rp_mode := p_mode g, rp_elementCount := p_elementCount g, rp_promise := False,
                 rp_vao := None, rp_complete := False,
                 rp_attributeBuffers :=
                   foldl (\<lambda>bufs a. add_attribute bufs (pa_buffer a) (RenderPrimitiveAttribute a))
                     [] (p_attributes g),
                 rp_attributeMask :=
                   foldl (\<lambda>m a. m OR ATTRIB_MASK (pa_name a)) 0 (p_attributes g),
                 rp_indexBuffer := None, rp_indexByteOffset := 0, rp_indexType := 0\<rparr>;
         rp2 = (case p_indexBuffer g of
                  None \<Rightarrow> rp1
                | Some ib \<Rightarrow> rp1\<lparr>rp_indexByteOffset := p_indexByteOffset g,
                               rp_indexType := p_indexType g, rp_indexBuffer := Some ib\<rparr>);
         st1 = st\<lparr>prims := (prims st)(p := rp2)\<rparr>
     in if rp_material rp2 \<noteq> None then waitForComplete st1 p else st1)"

definition RenderPrimitive :: "rstate \<Rightarrow> primitive \<Rightarrow> rstate \<times> nat" where
  "RenderPrimitive st g =
    (let p = next_prim st;
         st1 = st\<lparr>next_prim := Suc p,
                  prims := (prims st)(p := (prims st p)\<lparr>rp_activeFrameId := 0, rp_instances := [],
                                                      rp_material := None\<rparr>)\<rparr>
     in (setPrimitive st1 p g, p))"

definition setRenderMaterial :: "rstate \<Rightarrow> nat \<Rightarrow> nat option \<Rightarrow> rstate" where
  "setRenderMaterial st p m =
    (let st1 = st\<lparr>prims := (prims st)(p := (prims st p)\<lparr>rp_material := m, rp_promise := False,
                                                       rp_complete := False\<rparr>)\<rparr>
     in if m \<noteq> None then waitForComplete st1 p else st1)"


subsection \<open>The texture cache\<close>

text \<open>The properties every plain object inherits from \<^verbatim>\<open>Object.prototype\<close>: for these
  keys \<^verbatim>\<open>key in this._textureCache\<close> holds though nothing was stored.\<close>

definition object_prototype_keys :: "string list" where
  "object_prototype_keys =
    [''constructor'', ''__defineGetter__'', ''__defineSetter__'', ''hasOwnProperty'',
     ''__lookupGetter__'', ''__lookupSetter__'', ''isPrototypeOf'', ''propertyIsEnumerable'',
     ''toString'', ''valueOf'', ''__proto__'', ''toLocaleString'']"

text \<open>\<^verbatim>\<open>!key\<close> on a key that is \<^verbatim>\<open>null\<close> or a string: the empty string is falsy.\<close>

definition valid_key :: "string option \<Rightarrow> bool" where
  "valid_key k = (case k of None \<Rightarrow> False | Some s \<Rightarrow> s \<noteq> [])"

definition getRenderTexture :: "rstate \<Rightarrow> texture option \<Rightarrow> tex_ref eff" where
  "getRenderTexture st texture =
    (case texture of
       None \<Rightarrow> (st, [], Inr TexNull)
     | Some tx \<Rightarrow>
        (case textureKey tx of
           None \<Rightarrow> (st, [], Inl (Error ''Texure does not have a valid key''))
         | Some key \<Rightarrow>
            if key = [] then (st, [], Inl (Error ''Texure does not have a valid key''))
            else if key \<in> set object_prototype_keys then (st, [], Inr (TexProto key))
            else
              (case textureCache st key of
                 Some r \<Rightarrow> (st, [], Inr (TexObj r))
               | None \<Rightarrow>
                  (let textureHandle = next_handle st; r = next_texture st;
                       renderTexture = \<lparr>rt_texture = textureHandle, rt_complete = False,
                                        rt_activeFrameId = 0, rt_activeCallback = None,
                                        rt_isExternalTexture = False, rt_isArray = False\<rparr>;
                       st1 = st\<lparr>next_handle := Suc textureHandle, next_texture := Suc r,
                                textureCache := (textureCache st)(key := Some r)\<rparr>
                   in case tx_kind tx of
                        ExternalTexture \<Rightarrow>
                          (st1\<lparr>textures := (textures st)(r := renderTexture\<lparr>rt_isExternalTexture := True\<rparr>)\<rparr>,
                           [CreateTexture textureHandle], Inr (TexObj r))
                      | DataTexture \<Rightarrow>
                          (st1\<lparr>textures := (textures st)(r := renderTexture\<lparr>rt_complete := True\<rparr>)\<rparr>,
                           [CreateTexture textureHandle,
                            BindTexture GL_TEXTURE_2D (Some textureHandle),
                            TexImage2D_pixels GL_TEXTURE_2D 0 (tx_format tx) (tx_width tx) (tx_height tx)
                              0 (tx_format tx) (tx_type tx) (tx_data tx)] @ setSamplerParameters tx,
                           Inr (TexObj r))
                      | _ \<Rightarrow>
                          (st1\<lparr>textures := (textures st)(r := renderTexture),
                               tasks := tasks st @ [UploadTexture r tx]\<rparr>,
                           [CreateTexture textureHandle], Inr (TexObj r))))))"

text \<open>
  The continuation of \<^verbatim>\<open>texture.waitForComplete()\<close>, run when the image has been decoded;
  by then the descriptor knows the size of the image.
\<close>

definition uploadTexture :: "rstate \<Rightarrow> nat \<Rightarrow> texture \<Rightarrow> rstate \<times> gl_call list" where
  "uploadTexture st r tx =
    (let rt = textures st r
     in (st\<lparr>textures := (textures st)(r := rt\<lparr>rt_complete := True\<rparr>)\<rparr>,
         [BindTexture GL_TEXTURE_2D (Some (rt_texture rt)),
          TexImage2D_source GL_TEXTURE_2D 0 (tx_format tx) (tx_format tx) GL_UNSIGNED_BYTE (tx_data tx)]
         @ setSamplerParameters tx))"

text \<open>The \<^verbatim>\<open>playing\<close> listener of a video texture installs the per-frame callback.\<close>

definition videoPlaying :: "rstate \<Rightarrow> nat \<Rightarrow> texture \<Rightarrow> rstate" where
  "videoPlaying st r tx =
    st\<lparr>textures := (textures st)(r := (textures st r)\<lparr>rt_activeCallback := Some tx\<rparr>)\<rparr>"

definition RenderTexture_markActive :: "rstate \<Rightarrow> nat \<Rightarrow> nat \<Rightarrow> rstate \<times> gl_call list" where
  "RenderTexture_markActive st r f =
    (let rt = textures st r
     in case rt_activeCallback rt of
          None \<Rightarrow> (st, [])
        | Some tx \<Rightarrow>
            if rt_activeFrameId rt = f then (st, [])
            else (st\<lparr>textures := (textures st)(r := rt\<lparr>rt_activeFrameId := f\<rparr>)\<rparr>,
                  if video_playing st (tx_video tx)
                  then [BindTexture GL_TEXTURE_2D (Some (rt_texture rt)),
                        TexImage2D_source GL_TEXTURE_2D 0 (tx_format tx) (tx_format tx)
                          GL_UNSIGNED_BYTE (tx_data tx)]
                  else []))"

subsection \<open>The program cache\<close>

text \<open>
  \<^verbatim>\<open>for (let define in defines)\<close> enumerates the keys of the dictionary in the order the
  object holds them; a define dictionary is the list of its pairs in that order, each
  value in the text \<^verbatim>\<open>${...}\<close> gives it.
\<close>

definition getProgramKey :: "string \<Rightarrow> define_dict \<Rightarrow> string" where
  "getProgramKey name defs =
    foldl (\<lambda>key (define, v). key @ define @ ''='' @ v @ '','') (name @ '':'') defs"

fun is_infix :: "string \<Rightarrow> string \<Rightarrow> bool" where
  "is_infix pat [] = (pat = [])"
| "is_infix pat (c # cs) = (take (length pat) (c # cs) = pat \<or> is_infix pat cs)"

text \<open>\<^verbatim>\<open>fragmentSource.match(PRECISION_REGEX)\<close>\<close>

definition precisionMatch :: "string \<Rightarrow> bool" where
  "precisionMatch src =
    (is_infix ''precision lowp float;'' src \<or> is_infix ''precision mediump float;'' src
     \<or> is_infix ''precision highp float;'' src)"

definition getMaterialProgram :: "rstate \<Rightarrow> material \<Rightarrow> render_primitive \<Rightarrow> nat eff" where
  "getMaterialProgram st mat renderPrimitive =
    (case materialName mat of
       None \<Rightarrow> (st, [], Inl (Error ''Material does not have a name''))
     | Some name \<Rightarrow>
    (case vertexSource mat of
       None \<Rightarrow> (st, [], Inl (Error (''Material '' @ [CHR 0x22] @ name @ [CHR 0x22]
                                      @ '' does not have a vertex source'')))
     | Some vs \<Rightarrow>
    (case fragmentSource mat of
       None \<Rightarrow> (st, [], Inl (Error (''Material '' @ [CHR 0x22] @ name @ [CHR 0x22]
                                      @ '' does not have a fragment source'')))
     | Some fs \<Rightarrow>
       (let defs = getProgramDefines mat renderPrimitive;
            key = getProgramKey name defs;
            extensions = (if multiview st then [''GL_OVR_multiview2''] else []);
            layouts = (if multiview st then [''num_views=2''] else [])
        in case programCache st key of
             Some prog \<Rightarrow> (st, [], Inr prog)
           | None \<Rightarrow>
              (let fullVertexSource =
                     (vs, if r_useDepth st
                          then (if multiview st then VERTEX_SHADER_MULTI_DEPTH_ENTRY
                                else VERTEX_SHADER_DEPTH_ENTRY)
                          else (if multiview st then VERTEX_SHADER_MULTI_ENTRY
                                else VERTEX_SHADER_ENTRY));
                   fragPrecisionHeader =
                     (if precisionMatch fs then []
                      else ''precision '' @ defaultFragPrecision st @ '' float;'' @ [CHR 0x0A]);
                   fullFragmentSource =
                     (fragPrecisionHeader, fs,
                      if r_useDepth st
                      then (if multiview st then FRAGMENT_SHADER_MULTI_DEPTH_ENTRY
                            else FRAGMENT_SHADER_DEPTH_ENTRY)
                      else (if multiview st then FRAGMENT_SHADER_MULTI_ENTRY
                            else FRAGMENT_SHADER_ENTRY));
                   prog = next_program st;
                   program = \<lparr>prog_uniform = gl_link (r_gl st)
                                \<lparr>ps_vertex = fullVertexSource, ps_fragment = fullFragmentSource,
                                 ps_defines = defs, ps_extensions = extensions,
                                 ps_layouts = layouts\<rparr>,
                              prog_nextUse = [map fst (m_samplers mat)]\<rparr>
               in (st\<lparr>next_program := Suc prog,
                      programs := (programs st)(prog := program),
                      programCache := (programCache st)(key := Some prog)\<rparr>,
                   [], Inr prog))))))"

text \<open>\<^verbatim>\<open>program.use()\<close>, with the callback that \<^verbatim>\<open>_getMaterialProgram\<close> registered: it
  binds each declared sampler uniform to its texture index.\<close>

fun nextUse_callback :: "program \<Rightarrow> string list \<Rightarrow> nat \<Rightarrow> gl_call list" where
  "nextUse_callback program [] i = []"
| "nextUse_callback program (n # ns) i =
    (case prog_uniform program n of
       None \<Rightarrow> []
     | Some l \<Rightarrow> [Uniform1i (n, Some l) (int i)]) @ nextUse_callback program ns (Suc i)"

definition program_use :: "rstate \<Rightarrow> nat \<Rightarrow> rstate \<times> gl_call list" where
  "program_use st prog =
    (let program = programs st prog
     in (st\<lparr>programs := (programs st)(prog := program\<lparr>prog_nextUse := []\<rparr>)\<rparr>,
         UseProgram prog # concat (map (\<lambda>ns. nextUse_callback program ns 0) (prog_nextUse program))))"


subsection \<open>Render materials\<close>

text \<open>The loop of the \<^verbatim>\<open>RenderMaterial\<close> constructor that builds one
  \<^verbatim>\<open>RenderMaterialSampler\<close> per sampler of the material; each resolves its texture.\<close>

fun make_samplers :: "rstate \<Rightarrow> (string \<times> texture option) list \<Rightarrow> nat \<Rightarrow> render_sampler list eff" where
  "make_samplers st [] i = (st, [], Inr [])"
| "make_samplers st ((n, tx) # ms) i =
    (case getRenderTexture st tx of
       (st1, c1, Inl e) \<Rightarrow> (st1, c1, Inl e)
     | (st1, c1, Inr r) \<Rightarrow>
        (case make_samplers st1 ms (Suc i) of
           (st2, c2, Inl e) \<Rightarrow> (st2, c1 @ c2, Inl e)
         | (st2, c2, Inr rs) \<Rightarrow> (st2, c1 @ c2, Inr ((n, r, i) # rs))))"

definition RenderMaterialUniform :: "string \<times> int \<times> uniform_value \<Rightarrow> render_uniform" where
  "RenderMaterialUniform u =
    (case u of (n, len, v) \<Rightarrow>
       (n, None, len, (case v of Array xs \<Rightarrow> map fround xs | Scalar x \<Rightarrow> [fround x])))"

definition RenderMaterial :: "mat_consts \<Rightarrow> rstate \<Rightarrow> material \<Rightarrow> nat \<Rightarrow> nat eff" where
  "RenderMaterial K st mat prog =
    (case make_samplers st (m_samplers mat) 0 of
       (st1, c1, Inl e) \<Rightarrow> (st1, c1, Inl e)
     | (st1, c1, Inr samplers) \<Rightarrow>
        (let m = next_material st1;
             order = (if renderOrder mat = RENDER_ORDER_DEFAULT K
                      then (if m_state mat AND CAP_BLEND K \<noteq> 0 then RENDER_ORDER_TRANSPARENT K
                            else RENDER_ORDER_OPAQUE K)
                      else renderOrder mat);
             rm = \<lparr>rm_program = prog, rm_state = m_state mat, rm_activeFrameId = 0,
                   rm_completeForActiveFrame = False, rm_samplers = samplers,
                   rm_uniforms = map RenderMaterialUniform (m_uniforms mat),
                   rm_firstBind = True, rm_renderOrder = order\<rparr>
         in (st1\<lparr>next_material := Suc m, materials := (materials st1)(m := rm)\<rparr>, c1, Inr m)))"

text \<open>\<^verbatim>\<open>RenderMaterial.markActive\<close>: the loop over the samplers stops at the first
  texture that is not complete.\<close>

fun markActive_samplers :: "rstate \<Rightarrow> nat \<Rightarrow> render_sampler list \<Rightarrow> rstate \<times> gl_call list \<times> bool" where
  "markActive_samplers st f [] = (st, [], True)"
| "markActive_samplers st f ((n, r, i) # ss) =
    (case r of
       TexNull \<Rightarrow> markActive_samplers st f ss
     | TexProto k \<Rightarrow> (st, [], False)
     | TexObj t \<Rightarrow>
        if \<not> rt_complete (textures st t) then (st, [], False)
        else (case RenderTexture_markActive st t f of
                (st1, c1) \<Rightarrow>
                  (case markActive_samplers st1 f ss of
                     (st2, c2, b) \<Rightarrow> (st2, c1 @ c2, b))))"

definition RenderMaterial_markActive :: "rstate \<Rightarrow> nat \<Rightarrow> nat \<Rightarrow> rstate \<times> gl_call list \<times> bool" where
  "RenderMaterial_markActive st m f =
    (let rm = materials st m
     in if rm_activeFrameId rm \<noteq> f
        then (case markActive_samplers st f (rm_samplers rm) of
                (st1, c1, b) \<Rightarrow>
                  (st1\<lparr>materials := (materials st1)(m := rm\<lparr>rm_activeFrameId := f,
                                                            rm_completeForActiveFrame := b\<rparr>)\<rparr>,
                   c1, b))
        else (st, [], rm_completeForActiveFrame rm))"

definition RenderPrimitive_markActive :: "rstate \<Rightarrow> nat \<Rightarrow> nat \<Rightarrow> rstate \<times> gl_call list" where
  "RenderPrimitive_markActive st p f =
    (let rp = prims st p
     in if rp_complete rp \<and> rp_activeFrameId rp \<noteq> f
        then (case rp_material rp of
                None \<Rightarrow> (st\<lparr>prims := (prims st)(p := rp\<lparr>rp_activeFrameId := f\<rparr>)\<rparr>, [])
              | Some m \<Rightarrow>
                 (case RenderMaterial_markActive st m f of
                    (st1, c1, ok) \<Rightarrow>
                      if \<not> ok then (st1, c1)
                      else (st1\<lparr>prims := (prims st1)(p := (prims st1 p)\<lparr>rp_activeFrameId := f\<rparr>)\<rparr>, c1)))
        else (st, []))"

subsection \<open>Creating a render primitive\<close>

text \<open>\<^verbatim>\<open>this._renderPrimitives[order]\<close> is created on demand; writing past the end of a
  JavaScript array lengthens it with holes.\<close>

definition bucket_push :: "nat list option list \<Rightarrow> nat \<Rightarrow> nat \<Rightarrow> nat list option list" where
  "bucket_push bs order p =
    (let bs1 = (if order < length bs then bs else bs @ replicate (Suc order - length bs) None)
     in bs1[order := Some ((case bs1 ! order of None \<Rightarrow> [] | Some ps \<Rightarrow> ps) @ [p])])"

definition createRenderPrimitive :: "mat_consts \<Rightarrow> rstate \<Rightarrow> primitive \<Rightarrow> material \<Rightarrow> nat eff" where
  "createRenderPrimitive K st g mat =
    (case RenderPrimitive st g of
       (st1, renderPrimitive) \<Rightarrow>
    (case getMaterialProgram st1 mat (prims st1 renderPrimitive) of
       (st2, c2, Inl e) \<Rightarrow> (st2, c2, Inl e)
     | (st2, c2, Inr program) \<Rightarrow>
    (case RenderMaterial K st2 mat program of
       (st3, c3, Inl e) \<Rightarrow> (st3, c2 @ c3, Inl e)
     | (st3, c3, Inr renderMaterial) \<Rightarrow>
        (let st4 = setRenderMaterial st3 renderPrimitive (Some renderMaterial);
             order = rm_renderOrder (materials st4 renderMaterial)
         in (st4\<lparr>renderPrimitives := bucket_push (renderPrimitives st4) order renderPrimitive\<rparr>,
             c2 @ c3, Inr renderPrimitive)))))"

subsection \<open>Scene nodes\<close>

text \<open>
  Modelled from the spec: the class \<^verbatim>\<open>Node\<close> of \<^verbatim>\<open>node.js\<close> is not among the sources.
  A scene node exposes \<^verbatim>\<open>markActive(frameId)\<close>, which marks the node itself and,
  transitively, every primitive (hence material and texture) it references active for
  that frame. A node is its identity, the render primitives attached to it and its
  children. The renderer reads two properties of a node that is an instance of a
  primitive: \<^verbatim>\<open>_activeFrameId\<close> and \<^verbatim>\<open>worldMatrix\<close>, kept in the state under the identity
  of the node.
\<close>

datatype scene_node = Node nat "nat list" "scene_node list"

fun markActive_primitives :: "rstate \<Rightarrow> nat list \<Rightarrow> nat \<Rightarrow> rstate \<times> gl_call list" where
  "markActive_primitives st [] f = (st, [])"
| "markActive_primitives st (p # ps) f =
    (case RenderPrimitive_markActive st p f of
       (st1, c1) \<Rightarrow> (case markActive_primitives st1 ps f of (st2, c2) \<Rightarrow> (st2, c1 @ c2)))"

fun Node_markActive :: "rstate \<Rightarrow> scene_node \<Rightarrow> nat \<Rightarrow> rstate \<times> gl_call list"
  and Node_markActive_children :: "rstate \<Rightarrow> scene_node list \<Rightarrow> nat \<Rightarrow> rstate \<times> gl_call list" where
  "Node_markActive st (Node n ps cs) f =
    (case markActive_primitives (st\<lparr>node_activeFrameId := (node_activeFrameId st)(n := f)\<rparr>) ps f of
       (st1, c1) \<Rightarrow> (case Node_markActive_children st1 cs f of (st2, c2) \<Rightarrow> (st2, c1 @ c2)))"
| "Node_markActive_children st [] f = (st, [])"
| "Node_markActive_children st (c # cs) f =
    (case Node_markActive st c f of
       (st1, c1) \<Rightarrow> (case Node_markActive_children st1 cs f of (st2, c2) \<Rightarrow> (st2, c1 @ c2)))"

text \<open>\<^verbatim>\<open>node.addRenderPrimitive(primitive)\<close> pushes the node onto the instances of the
  primitive.\<close>

definition addInstance :: "rstate \<Rightarrow> nat \<Rightarrow> nat \<Rightarrow> rstate" where
  "addInstance st p n =
    st\<lparr>prims := (prims st)(p := (prims st p)\<lparr>rp_instances := rp_instances (prims st p) @ [n]\<rparr>)\<rparr>"


subsection \<open>Views\<close>

text \<open>An \<^verbatim>\<open>XRRigidTransform\<close> of the host, as far as the renderer reads it: its position,
  its matrix and the matrix of its inverse. \<^verbatim>\<open>new XRRigidTransform()\<close> is the identity.\<close>

record rigid_transform =
  position :: "rat \<times> rat \<times> rat"
  matrix :: mat4
  inverse_matrix :: mat4

definition mat4_identity :: mat4 where
  "mat4_identity = [1, 0, 0, 0,  0, 1, 0, 0,  0, 0, 1, 0,  0, 0, 0, 1]"

definition XRRigidTransform :: rigid_transform where
  "XRRigidTransform = \<lparr>position = (0, 0, 0), matrix = mat4_identity, inverse_matrix = mat4_identity\<rparr>"

datatype view_transform = Float32Array mat4 | Transform rigid_transform

record render_view =
  projectionMatrix :: mat4
  viewport :: "(rat \<times> rat \<times> rat \<times> rat) option"
  eye :: string
  eyeIndex :: nat
  viewMatrix :: mat4
  viewTransform :: rigid_transform

definition RenderView :: "mat4 \<Rightarrow> view_transform \<Rightarrow> (rat \<times> rat \<times> rat \<times> rat) option \<Rightarrow> string \<Rightarrow> render_view" where
  "RenderView proj vt vp e =
    (case vt of
       Float32Array m \<Rightarrow>
         \<lparr>projectionMatrix = proj, viewport = vp, eye = e, eyeIndex = (if e = ''left'' then 0 else 1),
          viewMatrix = m, viewTransform = XRRigidTransform\<rparr>
     | Transform t \<Rightarrow>
         \<lparr>projectionMatrix = proj, viewport = vp, eye = e, eyeIndex = (if e = ''left'' then 0 else 1),
          viewMatrix = inverse_matrix t, viewTransform = t\<rparr>)"

text \<open>A depth payload of the session layer; its projection matrix and its transform may
  be missing.\<close>

record depth_payload =
  dd_texture :: nat
  rawValueToMeters :: rat
  dd_projectionMatrix :: "mat4 option"
  dd_transform :: "rigid_transform option"

subsection \<open>Material state\<close>

definition setCap :: "int \<Rightarrow> 32 word \<Rightarrow> 32 word \<Rightarrow> 32 word \<Rightarrow> gl_call list" where
  "setCap glEnum cap prevState state =
    (let change = sint (state AND cap) - sint (prevState AND cap)
     in if change = 0 then [] else if change > 0 then [Enable glEnum] else [Disable glEnum])"

definition capsDiff :: "mat_consts \<Rightarrow> 32 word \<Rightarrow> 32 word \<Rightarrow> 32 word" where
  "capsDiff K state otherState = (otherState AND CAPS_RANGE K) XOR (state AND CAPS_RANGE K)"

definition blendDiff :: "mat_consts \<Rightarrow> 32 word \<Rightarrow> 32 word \<Rightarrow> 32 word" where
  "blendDiff K state otherState =
    (if state AND CAP_BLEND K = 0 then 0
     else (otherState AND BLEND_FUNC_RANGE K) XOR (state AND BLEND_FUNC_RANGE K))"

definition depthFuncDiff :: "mat_consts \<Rightarrow> 32 word \<Rightarrow> 32 word \<Rightarrow> 32 word" where
  "depthFuncDiff K state otherState =
    (if state AND CAP_DEPTH_TEST K = 0 then 0
     else (otherState AND DEPTH_FUNC_RANGE K) XOR (state AND DEPTH_FUNC_RANGE K))"

definition depthFunc :: "mat_consts \<Rightarrow> 32 word \<Rightarrow> int" where
  "depthFunc K state =
    sint (signed_drop_bit (DEPTH_FUNC_SHIFT K mod 32) (state AND DEPTH_FUNC_RANGE K)) + GL_NEVER"

definition blendFuncSrc :: "mat_consts \<Rightarrow> 32 word \<Rightarrow> int" where
  "blendFuncSrc K state = stateToBlendFunc K state (BLEND_SRC_RANGE K) (BLEND_SRC_SHIFT K)"

definition blendFuncDst :: "mat_consts \<Rightarrow> 32 word \<Rightarrow> int" where
  "blendFuncDst K state = stateToBlendFunc K state (BLEND_DST_RANGE K) (BLEND_DST_SHIFT K)"

text \<open>The part of \<^verbatim>\<open>_bindMaterialState\<close> guarded by \<^verbatim>\<open>material._capsDiff(prevState)\<close>.\<close>

definition bindCaps :: "mat_consts \<Rightarrow> rstate \<Rightarrow> 32 word \<Rightarrow> 32 word \<Rightarrow> rstate \<times> gl_call list" where
  "bindCaps K st state prevState =
    (let c1 = setCap GL_CULL_FACE (CAP_CULL_FACE K) prevState state
            @ setCap GL_BLEND (CAP_BLEND K) prevState state
            @ setCap GL_DEPTH_TEST (CAP_DEPTH_TEST K) prevState state
            @ setCap GL_STENCIL_TEST (CAP_STENCIL_TEST K) prevState state;
         colorMaskChange = sint (state AND CAP_COLOR_MASK K) - sint (prevState AND CAP_COLOR_MASK K);
         st1 = (if colorMaskChange \<noteq> 0 then st\<lparr>colorMaskNeedsReset := \<not> (colorMaskChange > 1)\<rparr> else st);
         c2 = (if colorMaskChange \<noteq> 0
               then (let mask = (colorMaskChange > 1) in [ColorMask mask mask mask mask]) else []);
         depthMaskChange = sint (state AND CAP_DEPTH_MASK K) - sint (prevState AND CAP_DEPTH_MASK K);
         st2 = (if depthMaskChange \<noteq> 0 then st1\<lparr>depthMaskNeedsReset := \<not> (depthMaskChange > 1)\<rparr> else st1);
         c3 = (if depthMaskChange \<noteq> 0 then [DepthMask (depthMaskChange > 1)] else []);
         stencilMaskChange = sint (state AND CAP_STENCIL_MASK K) - sint (prevState AND CAP_STENCIL_MASK K);
         c4 = (if stencilMaskChange \<noteq> 0
               then [StencilMask (if stencilMaskChange > 1 then 0xff else 0x00)] else [])
     in (st2, c1 @ c2 @ c3 @ c4))"

definition bindMaterialState :: "mat_consts \<Rightarrow> rstate \<Rightarrow> nat \<Rightarrow> nat option \<Rightarrow> rstate \<times> gl_call list" where
  "bindMaterialState K st m prevMaterial =
    (let state = rm_state (materials st m);
         prevState = (case prevMaterial of Some pm \<Rightarrow> rm_state (materials st pm) | None \<Rightarrow> NOT state)
     in if state = prevState then (st, [])
        else
          (case (if capsDiff K state prevState \<noteq> 0 then bindCaps K st state prevState else (st, [])) of
             (st1, c1) \<Rightarrow>
               (st1,
                c1
                @ (if blendDiff K state prevState \<noteq> 0
                   then [BlendFunc (blendFuncSrc K state) (blendFuncDst K state)] else [])
                @ (if depthFuncDiff K state prevState \<noteq> 0
                   then [DepthFunc (depthFunc K state)] else []))))"

subsection \<open>Binding a material\<close>

text \<open>The sampler loop of \<^verbatim>\<open>RenderMaterial.bind\<close> reads \<^verbatim>\<open>sampler._renderTexture._isArray\<close>
  before it tests the texture for \<^verbatim>\<open>null\<close>.\<close>

fun bind_samplers :: "rstate \<Rightarrow> render_sampler list \<Rightarrow> gl_call list \<times> js_error option" where
  "bind_samplers st [] = ([], None)"
| "bind_samplers st ((n, r, i) # ss) =
    (case r of
       TexNull \<Rightarrow> ([], Some (TypeError ''Cannot read properties of null (reading _isArray)''))
     | TexProto k \<Rightarrow>
        (case bind_samplers st ss of
           (cs, e) \<Rightarrow> ([ActiveTexture (GL_TEXTURE0 + int i), BindTexture GL_TEXTURE_2D None] @ cs, e))
     | TexObj t \<Rightarrow>
        (let rt = textures st t;
             type = (if rt_isArray rt then GL_TEXTURE_2D_ARRAY else GL_TEXTURE_2D)
         in case bind_samplers st ss of
              (cs, e) \<Rightarrow>
                ([ActiveTexture (GL_TEXTURE0 + int i),
                  BindTexture type (if rt_complete rt then Some (rt_texture rt) else None)] @ cs, e)))"

definition bind_uniform :: "render_uniform \<Rightarrow> gl_call list" where
  "bind_uniform u =
    (case u of (n, loc, len, v) \<Rightarrow>
       if len = 1 then [Uniform1fv (n, loc) v]
       else if len = 2 then [Uniform2fv (n, loc) v]
       else if len = 3 then [Uniform3fv (n, loc) v]
       else if len = 4 then [Uniform4fv (n, loc) v]
       else [])"

definition RenderMaterial_bind :: "rstate \<Rightarrow> nat \<Rightarrow> rstate \<times> gl_call list \<times> js_error option" where
  "RenderMaterial_bind st m =
    (let rm = materials st m;
         program = programs st (rm_program rm);
         rm1 = (if rm_firstBind rm
                then rm\<lparr>rm_samplers :=
                          filter (\<lambda>(n, r, i). prog_uniform program n \<noteq> None) (rm_samplers rm),
                        rm_uniforms :=
                          filter (\<lambda>(n, loc, len, v). loc \<noteq> None)
                            (map (\<lambda>(n, loc, len, v). (n, prog_uniform program n, len, v)) (rm_uniforms rm)),
                        rm_firstBind := False\<rparr>
                else rm);
         st1 = st\<lparr>materials := (materials st)(m := rm1)\<rparr>
     in case bind_samplers st1 (rm_samplers rm1) of
          (c1, Some e) \<Rightarrow> (st1, c1, Some e)
        | (c1, None) \<Rightarrow> (st1, c1 @ concat (map bind_uniform (rm_uniforms rm1)), None))"


subsection \<open>Drawing\<close>

definition uniform_ref :: "rstate \<Rightarrow> nat \<Rightarrow> string \<Rightarrow> uref" where
  "uniform_ref st prog n = (n, prog_uniform (programs st prog) n)"

text \<open>\<^verbatim>\<open>this._cameraPositions[i]\<close>; \<^verbatim>\<open>drawViews\<close> fills the entry of every view before it
  draws, and the empty list stands for \<^verbatim>\<open>undefined\<close> otherwise.\<close>

definition cameraPosition :: "rstate \<Rightarrow> nat \<Rightarrow> vec3" where
  "cameraPosition st i = (if i < length (cameraPositions st) then cameraPositions st ! i else [])"

definition bindPrimitive :: "rstate \<Rightarrow> nat \<Rightarrow> 32 word option \<Rightarrow> gl_call list" where
  "bindPrimitive st p attribMask =
    (let rp = prims st p
     in (if attribMask \<noteq> Some (rp_attributeMask rp)
         then concat (map (\<lambda>attrib.
                if rp_attributeMask rp AND ATTRIB_MASK attrib \<noteq> 0
                then (case ATTRIB attrib of Some a \<Rightarrow> [EnableVertexAttribArray a] | None \<Rightarrow> [])
                else (case ATTRIB attrib of Some a \<Rightarrow> [DisableVertexAttribArray a] | None \<Rightarrow> []))
              ATTRIB_names)
         else [])
        @ concat (map (\<lambda>(b, attribs).
            BindBuffer GL_ARRAY_BUFFER (buf_buffer (buffers st b))
            # map (\<lambda>a. VertexAttribPointer (attrib_index a) (componentCount a) (componentType a)
                         (normalized a) (stride a) (byteOffset a)) attribs)
            (rp_attributeBuffers rp))
        @ [BindBuffer GL_ELEMENT_ARRAY_BUFFER
             (case rp_indexBuffer rp of Some ib \<Rightarrow> buf_buffer (buffers st ib) | None \<Rightarrow> None)])"

text \<open>The first step for an active primitive: the program is bound when it differs from
  the program of the previous primitive.\<close>

definition bindProgram :: "rstate \<Rightarrow> render_view list \<Rightarrow> nat option \<Rightarrow> nat \<Rightarrow> rstate \<times> gl_call list" where
  "bindProgram st views program prog =
    (if program \<noteq> Some prog
     then (case program_use st prog of
             (st1, c1) \<Rightarrow>
               (st1,
                c1
                @ (case prog_uniform (programs st1 prog) ''LIGHT_DIRECTION'' of
                     Some l \<Rightarrow> [Uniform3fv (''LIGHT_DIRECTION'', Some l) (globalLightDir st1)]
                   | None \<Rightarrow> [])
                @ (case prog_uniform (programs st1 prog) ''LIGHT_COLOR'' of
                     Some l \<Rightarrow> [Uniform3fv (''LIGHT_COLOR'', Some l) (globalLightColor st1)]
                   | None \<Rightarrow> [])
                @ (if length views = 1
                   then [UniformMatrix4fv (uniform_ref st1 prog ''PROJECTION_MATRIX'') False
                           (Some (projectionMatrix (views ! 0))),
                         UniformMatrix4fv (uniform_ref st1 prog ''VIEW_MATRIX'') False
                           (Some (viewMatrix (views ! 0))),
                         Uniform3fv (uniform_ref st1 prog ''CAMERA_POSITION'') (cameraPosition st1 0),
                         Uniform1i (uniform_ref st1 prog ''EYE_INDEX'') (int (eyeIndex (views ! 0)))]
                   else [])))
     else (st, []))"

text \<open>The second step: the material is bound when it differs from the material of the
  previous primitive.\<close>

definition bindMaterial :: "mat_consts \<Rightarrow> rstate \<Rightarrow> nat option \<Rightarrow> nat
    \<Rightarrow> rstate \<times> gl_call list \<times> js_error option" where
  "bindMaterial K st material m =
    (if material \<noteq> Some m
     then (case bindMaterialState K st m material of
             (st1, c1) \<Rightarrow>
               (case RenderMaterial_bind st1 m of (st2, c2, e) \<Rightarrow> (st2, c1 @ c2, e)))
     else (st, [], None))"

text \<open>The third step: the vertex layout, through a vertex array object when the
  extension is there.\<close>

definition bindVertices :: "rstate \<Rightarrow> nat \<Rightarrow> 32 word \<Rightarrow> rstate \<times> gl_call list \<times> 32 word" where
  "bindVertices st p attribMask =
    (if vaoExt st
     then (case rp_vao (prims st p) of
             Some vao \<Rightarrow> (st, [BindVertexArrayOES (Some vao)], attribMask)
           | None \<Rightarrow>
              (let vao = next_handle st;
                   st1 = st\<lparr>next_handle := Suc vao,
                            prims := (prims st)(p := (prims st p)\<lparr>rp_vao := Some vao\<rparr>)\<rparr>
               in (st1, [CreateVertexArrayOES vao, BindVertexArrayOES (Some vao)] @ bindPrimitive st1 p None,
                   attribMask)))
     else (st, bindPrimitive st p (Some attribMask), rp_attributeMask (prims st p)))"

text \<open>The uploads of one view, made when there are several views.\<close>

definition depthUploads :: "rstate \<Rightarrow> render_view list \<Rightarrow> depth_payload list \<Rightarrow> nat \<Rightarrow> nat
    \<Rightarrow> gl_call list \<times> js_error option" where
  "depthUploads st views depthData prog material =
    (let c0 = [UniformMatrix4fv (uniform_ref st prog ''LEFT_DEPTH_PROJECTION_MATRIX'') False
                 (Some (projectionMatrix (views ! 0))),
               UniformMatrix4fv (uniform_ref st prog ''LEFT_DEPTH_VIEW_MATRIX'') False
                 (Some (viewMatrix (views ! 0))),
               UniformMatrix4fv (uniform_ref st prog ''RIGHT_DEPTH_PROJECTION_MATRIX'') False
                 (Some (projectionMatrix (views ! 1))),
               UniformMatrix4fv (uniform_ref st prog ''RIGHT_DEPTH_VIEW_MATRIX'') False
                 (Some (viewMatrix (views ! 1))),
               Uniform1f (uniform_ref st prog ''rawValueToMeters'') (rawValueToMeters (depthData ! 0))];
         n = int (length (rm_samplers (materials st material)));
         c2 = [ActiveTexture (GL_TEXTURE0 + n),
               BindTexture GL_TEXTURE_2D_ARRAY (Some (dd_texture (depthData ! 0))),
               Uniform1i (uniform_ref st prog ''depthColor'') n]
     in case dd_projectionMatrix (depthData ! 0) of
          None \<Rightarrow> (c0 @ c2, None)
        | Some pm0 \<Rightarrow>
           (let u1 = UniformMatrix4fv (uniform_ref st prog ''LEFT_DEPTH_PROJECTION_MATRIX'') False (Some pm0)
            in case dd_transform (depthData ! 0) of
                 None \<Rightarrow> (c0 @ [u1], Some (TypeError ''Cannot read properties of undefined (reading inverse)''))
               | Some t0 \<Rightarrow>
                  (let u2 = UniformMatrix4fv (uniform_ref st prog ''LEFT_DEPTH_VIEW_MATRIX'') False
                              (Some (inverse_matrix t0))
                   in if length depthData < 2
                      then (c0 @ [u1, u2],
                            Some (TypeError ''Cannot read properties of undefined (reading projectionMatrix)''))
                      else
                        (let u3 = UniformMatrix4fv (uniform_ref st prog ''RIGHT_DEPTH_PROJECTION_MATRIX'')
                                    False (dd_projectionMatrix (depthData ! 1))
                         in case dd_transform (depthData ! 1) of
                              None \<Rightarrow> (c0 @ [u1, u2, u3],
                                        Some (TypeError ''Cannot read properties of undefined (reading inverse)''))
                            | Some t1 \<Rightarrow>
                               (c0 @ [u1, u2, u3,
                                      UniformMatrix4fv (uniform_ref st prog ''RIGHT_DEPTH_VIEW_MATRIX'')
                                        False (Some (inverse_matrix t1))] @ c2, None)))))"

definition viewUploads :: "rstate \<Rightarrow> render_view list \<Rightarrow> depth_payload list option \<Rightarrow> nat \<Rightarrow> nat \<Rightarrow> nat
    \<Rightarrow> gl_call list \<times> js_error option" where
  "viewUploads st views depthData prog material i =
    (let view = views ! i;
         hasDepth = (case depthData of None \<Rightarrow> False | Some dd \<Rightarrow> dd \<noteq> []);
         c1 = (case viewport view of
                 Some (x, y, w, h) \<Rightarrow> [Viewport x y w h]
               | None \<Rightarrow> []);
         c2 = (if multiview st
               then (if i = 0
                     then [UniformMatrix4fv (uniform_ref st prog ''LEFT_PROJECTION_MATRIX'') False
                             (Some (projectionMatrix (views ! 0))),
                           UniformMatrix4fv (uniform_ref st prog ''LEFT_VIEW_MATRIX'') False
                             (Some (viewMatrix (views ! 0))),
                           UniformMatrix4fv (uniform_ref st prog ''RIGHT_PROJECTION_MATRIX'') False
                             (Some (projectionMatrix (views ! 1))),
                           UniformMatrix4fv (uniform_ref st prog ''RIGHT_VIEW_MATRIX'') False
                             (Some (viewMatrix (views ! 1)))]
                     else [])
                    @ [Uniform3fv (uniform_ref st prog ''CAMERA_POSITION'') (cameraPosition st i),
                       Uniform1i (uniform_ref st prog ''EYE_INDEX'') (int (eyeIndex view))]
               else [UniformMatrix4fv (uniform_ref st prog ''PROJECTION_MATRIX'') False
                       (Some (projectionMatrix view)),
                     UniformMatrix4fv (uniform_ref st prog ''VIEW_MATRIX'') False (Some (viewMatrix view)),
                     Uniform3fv (uniform_ref st prog ''CAMERA_POSITION'') (cameraPosition st i),
                     Uniform1i (uniform_ref st prog ''EYE_INDEX'') (int (eyeIndex view))]
                    @ (if hasDepth then [Uniform1ui (uniform_ref st prog ''VIEW_ID'') i] else []));
         c3 = (case depthData of
                 Some dd \<Rightarrow> [Uniform1i (uniform_ref st prog ''sortDepth'') (if length dd > 0 then 1 else 0)]
               | None \<Rightarrow> [])
     in if i = 0 \<and> hasDepth
        then (case depthUploads st views (case depthData of Some dd \<Rightarrow> dd | None \<Rightarrow> []) prog material of
                (c4, e) \<Rightarrow> (c1 @ c2 @ c3 @ c4, e))
        else (c1 @ c2 @ c3, None))"

definition drawInstance :: "rstate \<Rightarrow> nat \<Rightarrow> nat \<Rightarrow> nat \<Rightarrow> gl_call list" where
  "drawInstance st prog p inst =
    (let rp = prims st p
     in if node_activeFrameId st inst \<noteq> frameId st then []
        else [UniformMatrix4fv (uniform_ref st prog ''MODEL_MATRIX'') False (Some (node_worldMatrix st inst)),
              (case rp_indexBuffer rp of
                 Some ib \<Rightarrow> DrawElements (rp_mode rp) (rp_elementCount rp) (rp_indexType rp)
                             (rp_indexByteOffset rp)
               | None \<Rightarrow> DrawArrays (rp_mode rp) 0 (rp_elementCount rp))])"

text \<open>The loop over the views, at the views still to be visited; with multiview it
  breaks after the first.\<close>

fun viewLoop :: "rstate \<Rightarrow> render_view list \<Rightarrow> depth_payload list option \<Rightarrow> nat \<Rightarrow> nat \<Rightarrow> nat \<Rightarrow> nat list
    \<Rightarrow> gl_call list \<times> js_error option" where
  "viewLoop st views depthData prog material p [] = ([], None)"
| "viewLoop st views depthData prog material p (i # rest) =
    (case (if length views > 1 then viewUploads st views depthData prog material i else ([], None)) of
       (c1, Some e) \<Rightarrow> (c1, Some e)
     | (c1, None) \<Rightarrow>
        (let c2 = concat (map (drawInstance st prog p) (rp_instances (prims st p)))
         in if multiview st then (c1 @ c2, None)
            else (case viewLoop st views depthData prog material p rest of
                    (c3, e) \<Rightarrow> (c1 @ c2 @ c3, e))))"


text \<open>The body of the loop of \<^verbatim>\<open>_drawRenderPrimitiveSet\<close> for one active primitive. The
  loop variables \<^verbatim>\<open>program\<close>, \<^verbatim>\<open>material\<close> and \<^verbatim>\<open>attribMask\<close> are passed in and
  out.\<close>

type_synonym loop_vars = "nat option \<times> nat option \<times> 32 word"

definition drawPrimitive :: "mat_consts \<Rightarrow> rstate \<Rightarrow> render_view list \<Rightarrow> depth_payload list option
    \<Rightarrow> loop_vars \<Rightarrow> nat \<Rightarrow> rstate \<times> loop_vars \<times> gl_call list \<times> js_error option" where
  "drawPrimitive K st views depthData vars p =
    (case vars of (program, material, attribMask) \<Rightarrow>
     (case rp_material (prims st p) of
        None \<Rightarrow> (st, vars, [], Some (TypeError ''Cannot read properties of null (reading _program)''))
      | Some m \<Rightarrow>
         (let prog = rm_program (materials st m)
          in case bindProgram st views program prog of
               (st1, c1) \<Rightarrow>
          (case bindMaterial K st1 material m of
               (st2, c2, Some e) \<Rightarrow> (st2, (Some prog, material, attribMask), c1 @ c2, Some e)
             | (st2, c2, None) \<Rightarrow>
          (case bindVertices st2 p attribMask of
               (st3, c3, attribMask') \<Rightarrow>
          (case viewLoop st3 views depthData prog m p [0..<length views] of
               (c4, e) \<Rightarrow> (st3, (Some prog, Some m, attribMask'), c1 @ c2 @ c3 @ c4, e)))))))"

text \<open>A call in the trace of a frame carries the render primitive the loop was at when
  it made the call (\<open>None\<close> for the calls \<^verbatim>\<open>drawViews\<close> makes outside the loop), and
  an exception that ends a frame carries the render primitive the loop was at when it
  was thrown.\<close>

type_synonym tagged_call = "nat option \<times> gl_call"
type_synonym tagged_error = "nat \<times> js_error"

fun drawPrimitives :: "mat_consts \<Rightarrow> rstate \<Rightarrow> render_view list \<Rightarrow> depth_payload list option
    \<Rightarrow> loop_vars \<Rightarrow> nat list \<Rightarrow> rstate \<times> tagged_call list \<times> tagged_error option" where
  "drawPrimitives K st views depthData vars [] = (st, [], None)"
| "drawPrimitives K st views depthData vars (p # ps) =
    (if rp_activeFrameId (prims st p) \<noteq> frameId st
     then drawPrimitives K st views depthData vars ps
     else (case drawPrimitive K st views depthData vars p of
             (st1, vars1, c1, Some e) \<Rightarrow> (st1, map (Pair (Some p)) c1, Some (p, e))
           | (st1, vars1, c1, None) \<Rightarrow>
              (case drawPrimitives K st1 views depthData vars1 ps of
                 (st2, c2, e) \<Rightarrow> (st2, map (Pair (Some p)) c1 @ c2, e))))"

definition drawRenderPrimitiveSet :: "mat_consts \<Rightarrow> rstate \<Rightarrow> render_view list \<Rightarrow> nat list
    \<Rightarrow> depth_payload list option \<Rightarrow> rstate \<times> tagged_call list \<times> tagged_error option" where
  "drawRenderPrimitiveSet K st views renderPrims depthData =
    drawPrimitives K st views depthData (None, None, 0) renderPrims"

text \<open>The loop of \<^verbatim>\<open>drawViews\<close> over the buckets, in the order of the array; holes and
  empty buckets are skipped.\<close>

definition drawBucket :: "mat_consts \<Rightarrow> rstate \<Rightarrow> render_view list \<Rightarrow> depth_payload list option
    \<Rightarrow> nat list option \<Rightarrow> rstate \<times> tagged_call list \<times> tagged_error option" where
  "drawBucket K st views depthData b =
    (case b of
       None \<Rightarrow> (st, [], None)
     | Some renderPrims \<Rightarrow>
        if renderPrims \<noteq> [] then drawRenderPrimitiveSet K st views renderPrims depthData
        else (st, [], None))"

fun drawBuckets :: "mat_consts \<Rightarrow> rstate \<Rightarrow> render_view list \<Rightarrow> depth_payload list option
    \<Rightarrow> nat list option list \<Rightarrow> rstate \<times> tagged_call list \<times> tagged_error option" where
  "drawBuckets K st views depthData [] = (st, [], None)"
| "drawBuckets K st views depthData (b # bs) =
    (case drawBucket K st views depthData b of
       (st1, c1, Some e) \<Rightarrow> (st1, c1, Some e)
     | (st1, c1, None) \<Rightarrow>
        (case drawBuckets K st1 views depthData bs of (st2, c2, e) \<Rightarrow> (st2, c1 @ c2, e)))"

text \<open>The loop of \<^verbatim>\<open>drawViews\<close> that refreshes the scratch array of camera positions. An
  entry is a \<^verbatim>\<open>Float32Array\<close> of three zeros when \<^verbatim>\<open>vec3.create()\<close> makes it, and
  the three stores round the position of the transform.\<close>

fun cameraLoop :: "vec3 list \<Rightarrow> render_view list \<Rightarrow> nat list \<Rightarrow> vec3 list" where
  "cameraLoop cps views [] = cps"
| "cameraLoop cps views (i # rest) =
    (let cps1 = (if length cps \<le> i then cps @ [[F32 0, F32 0, F32 0]] else cps)
     in case position (viewTransform (views ! i)) of
          (x, y, z) \<Rightarrow> cameraLoop (cps1[i := [fround x, fround y, fround z]]) views rest)"

definition drawViews :: "mat_consts \<Rightarrow> rstate \<Rightarrow> render_view list \<Rightarrow> scene_node option
    \<Rightarrow> depth_payload list option \<Rightarrow> rstate \<times> tagged_call list \<times> tagged_error option" where
  "drawViews K st views rootNode depthData =
    (case rootNode of
       None \<Rightarrow> (st, [], None)
     | Some rootN \<Rightarrow>
        (let st1 = st\<lparr>frameId := Suc (frameId st)\<rparr>
         in case Node_markActive st1 rootN (frameId st1) of
              (st2, c2) \<Rightarrow>
                (let c3 = (if length views = 1
                           then (case viewport (views ! 0) of
                                   Some (x, y, w, h) \<Rightarrow> [Viewport x y w h]
                                 | None \<Rightarrow> [])
                           else []);
                     st3 = st2\<lparr>cameraPositions :=
                                 cameraLoop (cameraPositions st2) views [0..<length views]\<rparr>
                 in case drawBuckets K st3 views depthData (renderPrimitives st3) of
                      (st4, c4, Some e) \<Rightarrow> (st4, map (Pair None) (c2 @ c3) @ c4, Some e)
                    | (st4, c4, None) \<Rightarrow>
                       (st4,
                        map (Pair None) (c2 @ c3) @ c4
                        @ map (Pair None)
                            ((if vaoExt st4 then [BindVertexArrayOES None] else [])
                             @ (if depthMaskNeedsReset st4 then [DepthMask True] else [])
                             @ (if colorMaskNeedsReset st4 then [ColorMask True True True True] else [])),
                        None))))"

subsection \<open>What happens to a renderer\<close>

text \<open>
  The calls the scene graph and the session layer make on the renderer and on the render
  primitives it handed out, and the completions the host delivers: a buffer promise
  resolves, a pending promise continuation runs, a video starts playing.
\<close>

datatype event =
    EvCreateRenderBuffer int buffer_data int
  | EvResolveBuffer nat nat
  | EvCreateRenderPrimitive primitive material
  | EvAddInstance nat nat
  | EvSetRenderMaterial nat "nat option"
  | EvSetPrimitive nat primitive
  | EvRunTask nat
  | EvVideoPlaying nat texture
  | EvVideoState nat bool
  | EvWorldMatrix nat mat4
  | EvDrawViews "render_view list" "scene_node option" "depth_payload list option"

text \<open>A continuation of \<^verbatim>\<open>Promise.all\<close> runs once every awaited buffer promise has
  resolved; the upload of an image runs when the host has decoded it.\<close>

definition runTask :: "rstate \<Rightarrow> nat \<Rightarrow> rstate \<times> gl_call list" where
  "runTask st k =
    (if k < length (tasks st)
     then (case tasks st ! k of
             CompletePrimitive p bs \<Rightarrow>
               if list_all (\<lambda>b. buf_resolved (buffers st b)) bs
               then (st\<lparr>tasks := take k (tasks st) @ drop (Suc k) (tasks st),
                        prims := (prims st)(p := (prims st p)\<lparr>rp_complete := True\<rparr>)\<rparr>, [])
               else (st, [])
           | UploadTexture r tx \<Rightarrow>
               uploadTexture (st\<lparr>tasks := take k (tasks st) @ drop (Suc k) (tasks st)\<rparr>) r tx)
     else (st, []))"

text \<open>The caller can only pass objects that exist: a geometry refers to buffers that
  \<^verbatim>\<open>createRenderBuffer\<close> returned, and a method is called on a render primitive that
  \<^verbatim>\<open>createRenderPrimitive\<close> returned. An event that names anything else is no event.\<close>

definition buffers_exist :: "rstate \<Rightarrow> primitive \<Rightarrow> bool" where
  "buffers_exist st g =
    (list_all (\<lambda>a. pa_buffer a < next_buffer st) (p_attributes g)
     \<and> (case p_indexBuffer g of None \<Rightarrow> True | Some b \<Rightarrow> b < next_buffer st))"

definition event_ok :: "rstate \<Rightarrow> event \<Rightarrow> bool" where
  "event_ok st ev =
    (case ev of
       EvCreateRenderPrimitive g mat \<Rightarrow> buffers_exist st g
     | EvAddInstance p n \<Rightarrow> p < next_prim st
     | EvSetRenderMaterial p m \<Rightarrow>
         p < next_prim st \<and> (case m of None \<Rightarrow> True | Some rm \<Rightarrow> rm < next_material st)
     | EvSetPrimitive p g \<Rightarrow> p < next_prim st \<and> buffers_exist st g
     | EvVideoPlaying r tx \<Rightarrow> r < next_texture st
     | _ \<Rightarrow> True)"

definition step :: "mat_consts \<Rightarrow> rstate \<Rightarrow> event \<Rightarrow> rstate \<times> tagged_call list \<times> js_error option" where
  "step K st ev =
    (if \<not> event_ok st ev then (st, [], None) else
     case ev of
       EvCreateRenderBuffer target data usage \<Rightarrow>
         (case createRenderBuffer st target data usage of (st1, c, b) \<Rightarrow> (st1, map (Pair None) c, None))
     | EvResolveBuffer b n \<Rightarrow>
         (case resolveBuffer st b n of (st1, c) \<Rightarrow> (st1, map (Pair None) c, None))
     | EvCreateRenderPrimitive g mat \<Rightarrow>
         (case createRenderPrimitive K st g mat of
            (st1, c, Inl e) \<Rightarrow> (st1, map (Pair None) c, Some e)
          | (st1, c, Inr p) \<Rightarrow> (st1, map (Pair None) c, None))
     | EvAddInstance p n \<Rightarrow> (addInstance st p n, [], None)
     | EvSetRenderMaterial p m \<Rightarrow> (setRenderMaterial st p m, [], None)
     | EvSetPrimitive p g \<Rightarrow> (setPrimitive st p g, [], None)
     | EvRunTask k \<Rightarrow> (case runTask st k of (st1, c) \<Rightarrow> (st1, map (Pair None) c, None))
     | EvVideoPlaying r tx \<Rightarrow> (videoPlaying st r tx, [], None)
     | EvVideoState v b \<Rightarrow> (st\<lparr>video_playing := (video_playing st)(v := b)\<rparr>, [], None)
     | EvWorldMatrix n m \<Rightarrow> (st\<lparr>node_worldMatrix := (node_worldMatrix st)(n := m)\<rparr>, [], None)
     | EvDrawViews views rootNode depthData \<Rightarrow>
         (case drawViews K st views rootNode depthData of
            (st1, c, e) \<Rightarrow> (st1, c, map_option snd e)))"

fun run :: "mat_consts \<Rightarrow> rstate \<Rightarrow> event list \<Rightarrow> rstate" where
  "run K st [] = st"
| "run K st (ev # evs) = run K (fst (step K st ev)) evs"

section \<open>Properties named by the theorems\<close>

text \<open>A material lacks its identity when its name, its vertex source or its fragment
  source is \<^verbatim>\<open>null\<close> (or \<^verbatim>\<open>undefined\<close>: the test is \<^verbatim>\<open>== null\<close>).\<close>

definition identity_missing :: "material \<Rightarrow> bool" where
  "identity_missing mat =
    (materialName mat = None \<or> vertexSource mat = None \<or> fragmentSource mat = None)"

text \<open>Some sampler of the material holds a texture without a valid key.\<close>

definition texture_key_missing :: "material \<Rightarrow> bool" where
  "texture_key_missing mat =
    list_ex (\<lambda>(n, t). case t of None \<Rightarrow> False | Some tx \<Rightarrow> \<not> valid_key (textureKey tx))
      (m_samplers mat)"

text \<open>A capability constant is a single bit, at a position from \<open>lo\<close> up to 30, so
  that it is a positive 32-bit integer.\<close>

definition cap_bit :: "nat \<Rightarrow> 32 word \<Rightarrow> bool" where
  "cap_bit lo c = (c \<in> (\<lambda>k. 2 ^ k) ` {lo..<31})"

text \<open>What the theorem on \<^verbatim>\<open>_bindMaterialState\<close> asks of the constants of
  \<^verbatim>\<open>material.js\<close>: the four capabilities and the three write masks are single bits (the
  masks above bit 0, since the code tests their change with \<^verbatim>\<open>> 1\<close>), and the three
  ranges are not empty.\<close>

definition consts_ok :: "mat_consts \<Rightarrow> bool" where
  "consts_ok K =
    (cap_bit 0 (CAP_CULL_FACE K) \<and> cap_bit 0 (CAP_BLEND K) \<and> cap_bit 0 (CAP_DEPTH_TEST K)
     \<and> cap_bit 0 (CAP_STENCIL_TEST K) \<and> cap_bit 1 (CAP_COLOR_MASK K)
     \<and> cap_bit 1 (CAP_DEPTH_MASK K) \<and> cap_bit 1 (CAP_STENCIL_MASK K)
     \<and> CAPS_RANGE K \<noteq> 0 \<and> BLEND_FUNC_RANGE K \<noteq> 0 \<and> DEPTH_FUNC_RANGE K \<noteq> 0)"

definition cap_call :: "int \<Rightarrow> bool \<Rightarrow> gl_call" where
  "cap_call glEnum on = (if on then Enable glEnum else Disable glEnum)"

text \<open>The primitives of a bucket, and of all buckets in the order of the array.\<close>

definition bucket_prims :: "nat list option \<Rightarrow> nat list" where
  "bucket_prims b = (case b of None \<Rightarrow> [] | Some ps \<Rightarrow> ps)"

definition bucket :: "rstate \<Rightarrow> nat \<Rightarrow> nat list" where
  "bucket st i = (if i < length (renderPrimitives st) then bucket_prims (renderPrimitives st ! i) else [])"

definition all_prims :: "rstate \<Rightarrow> nat list" where
  "all_prims st = concat (map bucket_prims (renderPrimitives st))"

fun is_draw :: "gl_call \<Rightarrow> bool" where
  "is_draw (DrawElements mode n t off) = True"
| "is_draw (DrawArrays mode first n) = True"
| "is_draw c = False"

text \<open>The uploads of the left and right projection and view matrices.\<close>

fun is_multiview_upload :: "gl_call \<Rightarrow> bool" where
  "is_multiview_upload (UniformMatrix4fv u t v) =
     (fst u \<in> {''LEFT_PROJECTION_MATRIX'', ''LEFT_VIEW_MATRIX'',
               ''RIGHT_PROJECTION_MATRIX'', ''RIGHT_VIEW_MATRIX''})"
| "is_multiview_upload c = False"

text \<open>A call that is neither a draw call nor an upload of a left or right matrix.\<close>

definition quiet :: "gl_call \<Rightarrow> bool" where
  "quiet c = (\<not> is_draw c \<and> \<not> is_multiview_upload c)"

definition multiview_uploads :: "rstate \<Rightarrow> render_view list \<Rightarrow> nat \<Rightarrow> gl_call list" where
  "multiview_uploads st views prog =
    [UniformMatrix4fv (uniform_ref st prog ''LEFT_PROJECTION_MATRIX'') False
       (Some (projectionMatrix (views ! 0))),
     UniformMatrix4fv (uniform_ref st prog ''LEFT_VIEW_MATRIX'') False
       (Some (viewMatrix (views ! 0))),
     UniformMatrix4fv (uniform_ref st prog ''RIGHT_PROJECTION_MATRIX'') False
       (Some (projectionMatrix (views ! 1))),
     UniformMatrix4fv (uniform_ref st prog ''RIGHT_VIEW_MATRIX'') False
       (Some (viewMatrix (views ! 1)))]"

definition draw_call :: "render_primitive \<Rightarrow> gl_call" where
  "draw_call rp =
    (case rp_indexBuffer rp of
       Some ib \<Rightarrow> DrawElements (rp_mode rp) (rp_elementCount rp) (rp_indexType rp) (rp_indexByteOffset rp)
     | None \<Rightarrow> DrawArrays (rp_mode rp) 0 (rp_elementCount rp))"

text \<open>The instances of a primitive that are active in the current frame, and whether the
  primitive itself is.\<close>

definition active_instances :: "rstate \<Rightarrow> nat \<Rightarrow> nat list" where
  "active_instances st p =
    filter (\<lambda>n. node_activeFrameId st n = frameId st) (rp_instances (prims st p))"

definition active :: "rstate \<Rightarrow> nat \<Rightarrow> bool" where
  "active st p = (rp_activeFrameId (prims st p) = frameId st)"

text \<open>What a multiview frame is expected to issue for one primitive, as far as the
  left and right matrices and the draw calls go: the four uploads, then one draw call for
  each active instance.\<close>

definition multiview_calls :: "rstate \<Rightarrow> render_view list \<Rightarrow> nat \<Rightarrow> tagged_call list" where
  "multiview_calls st views p =
    (if active st p
     then map (Pair (Some p))
            (multiview_uploads st views
               (rm_program (materials st (case rp_material (prims st p) of Some m \<Rightarrow> m | None \<Rightarrow> 0)))
             @ replicate (length (active_instances st p)) (draw_call (prims st p)))
     else [])"

text \<open>The buffers a render primitive refers to.\<close>

definition buffer_refs :: "render_primitive \<Rightarrow> nat set" where
  "buffer_refs rp = set (map fst (rp_attributeBuffers rp)) \<union> set_option (rp_indexBuffer rp)"

definition geometry_refs :: "primitive \<Rightarrow> nat set" where
  "geometry_refs g = set (map pa_buffer (p_attributes g)) \<union> set_option (p_indexBuffer g)"

text \<open>No event of the list resolves the promise of buffer \<open>B\<close>, and none gives primitive
  \<open>P\<close> a geometry without \<open>B\<close>.\<close>

fun keeps_pending :: "nat \<Rightarrow> nat \<Rightarrow> event \<Rightarrow> bool" where
  "keeps_pending P B (EvResolveBuffer b n) = (b \<noteq> B)"
| "keeps_pending P B (EvSetPrimitive p g) = (p = P \<longrightarrow> B \<in> geometry_refs g)"
| "keeps_pending P B ev = True"

subsection \<open>What the phases of a frame leave alone\<close>

definition static :: "rstate \<Rightarrow> rstate \<Rightarrow> bool" where
  "static st st' =
    (renderPrimitives st' = renderPrimitives st \<and> next_prim st' = next_prim st
     \<and> next_buffer st' = next_buffer st \<and> next_material st' = next_material st
     \<and> next_texture st' = next_texture st \<and> buffers st' = buffers st
     \<and> tasks st' = tasks st \<and> multiview st' = multiview st \<and> vaoExt st' = vaoExt st
     \<and> textureCache st' = textureCache st \<and> programCache st' = programCache st
     \<and> cameraPositions st' = cameraPositions st \<and> frameId st' = frameId st
     \<and> (\<forall>g. prog_uniform (programs st' g) = prog_uniform (programs st g))
     \<and> (\<forall>m. rm_program (materials st' m) = rm_program (materials st m)))"

text \<open>Marking for frame \<open>f\<close> changes, of a render primitive, only its active frame, and
  only into \<open>f\<close> and when the primitive is complete.\<close>

definition mark_rel :: "nat \<Rightarrow> rstate \<Rightarrow> rstate \<Rightarrow> bool" where
  "mark_rel f st st' =
    (static st st'
     \<and> (\<forall>p. prims st' p = (prims st p)\<lparr>rp_activeFrameId := rp_activeFrameId (prims st' p)\<rparr>)
     \<and> (\<forall>p. rp_activeFrameId (prims st' p) \<noteq> rp_activeFrameId (prims st p)
            \<longrightarrow> rp_complete (prims st p) \<and> rp_activeFrameId (prims st' p) = f))"

text \<open>Drawing changes, of a render primitive, only its vertex array object.\<close>

definition draw_rel :: "rstate \<Rightarrow> rstate \<Rightarrow> bool" where
  "draw_rel st st' =
    (static st st'
     \<and> node_activeFrameId st' = node_activeFrameId st
     \<and> (\<forall>p. prims st' p = (prims st p)\<lparr>rp_vao := rp_vao (prims st' p)\<rparr>))"

text \<open>Resolving programs and textures for a new material leaves the primitives, the
  buffers and the buckets alone, and queues no completion of a primitive.\<close>

definition creation_rel :: "rstate \<Rightarrow> rstate \<Rightarrow> bool" where
  "creation_rel st st' =
    (renderPrimitives st' = renderPrimitives st \<and> next_prim st' = next_prim st
     \<and> next_buffer st' = next_buffer st \<and> buffers st' = buffers st \<and> prims st' = prims st
     \<and> (\<forall>p bs. CompletePrimitive p bs \<in> set (tasks st') \<longleftrightarrow> CompletePrimitive p bs \<in> set (tasks st)))"

text \<open>The texture cache only grows: what it holds under a key stays there.\<close>

definition cache_kept :: "rstate \<Rightarrow> rstate \<Rightarrow> bool" where
  "cache_kept st st' = (\<forall>k t. textureCache st k = Some t \<longrightarrow> textureCache st' k = Some t)"

text \<open>The invariants of a renderer: the buckets hold distinct primitives, all of them
  created, and every pending completion is of a created primitive.\<close>

definition renderer_inv :: "rstate \<Rightarrow> bool" where
  "renderer_inv st =
    (distinct (all_prims st) \<and> (\<forall>p \<in> set (all_prims st). p < next_prim st)
     \<and> (\<forall>p bs. CompletePrimitive p bs \<in> set (tasks st) \<longrightarrow> p < next_prim st))"

text \<open>Primitive \<open>P\<close> waits for buffer \<open>B\<close>: the promise of the buffer is pending, the
  primitive refers to the buffer, is neither complete nor ever marked, and every
  completion pending for it awaits the buffer.\<close>

definition starved :: "nat \<Rightarrow> nat \<Rightarrow> rstate \<Rightarrow> bool" where
  "starved P B st =
    (P < next_prim st \<and> B < next_buffer st
     \<and> buf_buffer (buffers st B) = None \<and> \<not> buf_resolved (buffers st B)
     \<and> B \<in> buffer_refs (prims st P)
     \<and> \<not> rp_complete (prims st P) \<and> rp_activeFrameId (prims st P) = 0
     \<and> (\<forall>bs. CompletePrimitive P bs \<in> set (tasks st) \<longrightarrow> B \<in> set bs))"

text \<open>Matrices as \<^verbatim>\<open>gl-matrix\<close> lays them out (column-major): product, and the translation
  component.\<close>

definition mat4_multiply :: "mat4 \<Rightarrow> mat4 \<Rightarrow> mat4" where
  "mat4_multiply a b =
    map (\<lambda>i. \<Sum>k\<leftarrow>[0..<4]. a ! (k * 4 + i mod 4) * b ! ((i div 4) * 4 + k)) [0..<16]"

definition mat4_translation :: "mat4 \<Rightarrow> rat \<times> rat \<times> rat" where
  "mat4_translation m = (m ! 12, m ! 13, m ! 14)"

definition inverse_of :: "mat4 \<Rightarrow> mat4 \<Rightarrow> bool" where
  "inverse_of m w = (mat4_multiply m w = mat4_identity \<and> mat4_multiply w m = mat4_identity)"

section \<open>Concrete inputs\<close>

text \<open>A choice of the constants of \<^verbatim>\<open>material.js\<close>, a WebGL context and a fresh renderer,
  for the examples below.\<close>

definition K0 :: mat_consts where
  "K0 = \<lparr>CAP_CULL_FACE = 0x001, CAP_BLEND = 0x002, CAP_DEPTH_TEST = 0x004,
          CAP_STENCIL_TEST = 0x008, CAP_COLOR_MASK = 0x010, CAP_DEPTH_MASK = 0x020,
          CAP_STENCIL_MASK = 0x040, CAPS_RANGE = 0xFF,
          BLEND_SRC_SHIFT = 8, BLEND_SRC_RANGE = 0xF00,
          BLEND_DST_SHIFT = 12, BLEND_DST_RANGE = 0xF000, BLEND_FUNC_RANGE = 0xFF00,
          DEPTH_FUNC_SHIFT = 16, DEPTH_FUNC_RANGE = 0xF0000,
          RENDER_ORDER_OPAQUE = 0, RENDER_ORDER_TRANSPARENT = 2, RENDER_ORDER_DEFAULT = 4,
          stateToBlendFunc = (\<lambda>state mask shift.
            (let v = sint (signed_drop_bit (shift mod 32) (state AND mask))
             in if v = 0 \<or> v = 1 then v else v - 2 + 0x0300))\<rparr>"

definition gl0 :: gl_context where
  "gl0 = \<lparr>gl_vaoExt = True, gl_mvExt = True, gl_fragHighPrecision = 23,
           gl_link = (\<lambda>src. map_of [(''MODEL_MATRIX'', 0), (''LEFT_PROJECTION_MATRIX'', 1),
                                     (''diffuse'', 2)])\<rparr>"

definition r0 :: rstate where
  "r0 = projr (Renderer K0 None (Some gl0) True False False)"

definition tex_0x3 :: texture where
  "tex_0x3 = \<lparr>tx_kind = DataTexture, textureKey = Some ''DATA_0'',
     tx_sampler = \<lparr>minFilter = None, magFilter = None, wrapS = None, wrapT = None\<rparr>,
     tx_mipmap = True, tx_width = 0, tx_height = 3, tx_format = 6408, tx_type = 5121,
     tx_data = 0, tx_video = 0\<rparr>"

definition tex_0x4 :: texture where
  "tex_0x4 = tex_0x3\<lparr>tx_height := 4\<rparr>"

definition tex_nokey :: texture where
  "tex_nokey = tex_0x4\<lparr>textureKey := None\<rparr>"

definition mat0 :: material where
  "mat0 = \<lparr>materialName = Some ''PBR'', vertexSource = Some ''vertex_main'',
            fragmentSource = Some ''fragment_main'', m_state = 0x36,
            m_samplers = [(''diffuse'', Some tex_0x4)], m_uniforms = [],
            renderOrder = 4, getProgramDefines = (\<lambda>rp. [(''USE_NORMAL_MAP'', ''1'')])\<rparr>"

definition geom0 :: primitive where
  "geom0 = \<lparr>p_mode = 4, p_elementCount = 3,
             p_attributes = [\<lparr>pa_name = ''POSITION'', pa_buffer = 0, pa_componentCount = 3,
                               pa_componentType = 5126, pa_stride = 12, pa_byteOffset = 0,
                               pa_normalized = False\<rparr>],
             p_indexBuffer = None, p_indexByteOffset = 0, p_indexType = 0\<rparr>"

definition r1 :: rstate where
  "r1 = r0\<lparr>materials := (materials r0)(0 := (materials r0 0)\<lparr>rm_state := 0x10036\<rparr>)\<rparr>"

definition view_matrix0 :: mat4 where
  "view_matrix0 = [1, 0, 0, 0,  0, 1, 0, 0,  0, 0, 1, 0,  1, 2, 3, 1]"

definition camera_matrix0 :: mat4 where
  "camera_matrix0 = [1, 0, 0, 0,  0, 1, 0, 0,  0, 0, 1, 0,  - 1, - 2, - 3, 1]"

definition view0 :: render_view where
  "view0 = RenderView mat4_identity (Float32Array view_matrix0) None ''left''"

subsection \<open>A scene of two primitives, and a scene that waits for a buffer\<close>

definition mat_opaque :: material where
  "mat_opaque = mat0\<lparr>m_state := 0x34, renderOrder := 0\<rparr>"

definition mat_transparent :: material where
  "mat_transparent = mat0\<lparr>renderOrder := 2\<rparr>"

definition view1 :: render_view where
  "view1 = RenderView mat4_identity (Transform XRRigidTransform) None ''right''"

definition evs0 :: "event list" where
  "evs0 = [EvCreateRenderBuffer GL_ARRAY_BUFFER (Sync 36) GL_STATIC_DRAW,
           EvCreateRenderPrimitive geom0 mat_transparent, EvCreateRenderPrimitive geom0 mat_opaque,
           EvAddInstance 0 10, EvAddInstance 1 11, EvRunTask 0, EvRunTask 0]"

definition scene0 :: scene_node where
  "scene0 = Node 10 [0] [Node 11 [1] []]"

definition s0 :: rstate where
  "s0 = run K0 r0 evs0"

definition tr0 :: "tagged_call list" where
  "tr0 = fst (snd (drawViews K0 s0 [view0, view1] (Some scene0) None))"

definition geom1 :: primitive where
  "geom1 = geom0\<lparr>p_attributes := [\<lparr>pa_name = ''POSITION'', pa_buffer = 1, pa_componentCount = 3,
                               pa_componentType = 5126, pa_stride = 12, pa_byteOffset = 0,
                               pa_normalized = False\<rparr>]\<rparr>"

definition evs_async :: "event list" where
  "evs_async = [EvCreateRenderBuffer GL_ARRAY_BUFFER Async GL_STATIC_DRAW]"

definition s_async :: rstate where
  "s_async = run K0 r0 evs_async"

definition s_created :: rstate where
  "s_created = fst (createRenderPrimitive K0 s_async geom0 mat_transparent)"

definition evs_later :: "event list" where
  "evs_later = [EvAddInstance 0 10, EvRunTask 0,
                EvCreateRenderBuffer GL_ARRAY_BUFFER (Sync 36) GL_STATIC_DRAW,
                EvCreateRenderPrimitive geom1 mat_opaque, EvAddInstance 1 11,
                EvRunTask 0, EvRunTask 1, EvRunTask 0,
                EvDrawViews [view0, view1] (Some scene0) None,
                EvSetRenderMaterial 0 (Some 1), EvRunTask 0]"

definition s_later :: rstate where
  "s_later = run K0 s_created evs_later"

definition tr_later :: "tagged_call list" where
  "tr_later = fst (snd (drawViews K0 s_later [view0, view1] (Some scene0) None))"

text \<open>A rigid transform at position \<open>(1, 2, 3)\<close> with no rotation, and a view made from
  it.\<close>

definition transform0 :: rigid_transform where
  "transform0 = \<lparr>position = (1, 2, 3), matrix = view_matrix0, inverse_matrix = camera_matrix0\<rparr>"

definition view2 :: render_view where
  "view2 = RenderView mat4_identity (Transform transform0) None ''right''"

text \<open>A primitive created on a buffer that is filled, then given a geometry on a buffer
  whose promise never resolves; the continuation queued at creation runs afterwards.\<close>

definition evs_stale :: "event list" where
  "evs_stale = [EvCreateRenderBuffer GL_ARRAY_BUFFER (Sync 36) GL_STATIC_DRAW,
                EvCreateRenderBuffer GL_ARRAY_BUFFER Async GL_STATIC_DRAW,
                EvCreateRenderPrimitive geom0 mat_transparent,
                EvSetPrimitive 0 geom1,
                EvAddInstance 0 10,
                EvRunTask 0]"

definition s_stale :: rstate where
  "s_stale = run K0 r0 evs_stale"

definition scene_stale :: scene_node where
  "scene_stale = Node 10 [0] []"

definition tr_stale :: "tagged_call list" where
  "tr_stale = fst (snd (drawViews K0 s_stale [view0] (Some scene_stale) None))"

section \<open>Sampler parameters of a texture of size zero\<close>

lemma isPowerOfTwo_0: "isPowerOfTwo 0"
  by (simp add: isPowerOfTwo_def)

text \<open>
  Claim C9, as amended. \<^verbatim>\<open>isPowerOfTwo(0)\<close> is true. A texture whose width or height is 0
  is classified as power-of-two by \<^verbatim>\<open>_setSamplerParameters\<close> when its other dimension
  passes \<^verbatim>\<open>isPowerOfTwo\<close> as well; it then gets \<^verbatim>\<open>REPEAT\<close> as the default of both wrap
  modes and, when mipmapping is requested, a \<^verbatim>\<open>generateMipmap\<close> call and
  \<^verbatim>\<open>LINEAR_MIPMAP_LINEAR\<close> as the default min filter. (A filter or wrap mode set on the
  sampler of the texture still wins over the default.)
\<close>

theorem C9_zero_size_texture:
  assumes "tx_width tx = 0 \<or> tx_height tx = 0"
    and "isPowerOfTwo (tx_width tx)" and "isPowerOfTwo (tx_height tx)"
  shows "isPowerOfTwo 0 \<and>
    setSamplerParameters tx =
      (if tx_mipmap tx then [GenerateMipmap GL_TEXTURE_2D] else []) @
      [TexParameteri GL_TEXTURE_2D GL_TEXTURE_MAG_FILTER (js_or (magFilter (tx_sampler tx)) GL_LINEAR),
       TexParameteri GL_TEXTURE_2D GL_TEXTURE_MIN_FILTER
         (js_or (minFilter (tx_sampler tx))
            (if tx_mipmap tx then GL_LINEAR_MIPMAP_LINEAR else GL_LINEAR)),
       TexParameteri GL_TEXTURE_2D GL_TEXTURE_WRAP_S (js_or (wrapS (tx_sampler tx)) GL_REPEAT),
       TexParameteri GL_TEXTURE_2D GL_TEXTURE_WRAP_T (js_or (wrapT (tx_sampler tx)) GL_REPEAT)]"
  using assms by (simp add: setSamplerParameters_def isPowerOfTwo_0 Let_def)

theorem C9_zero_size_texture_witness:
  "(tx_width tex_0x4 = 0 \<or> tx_height tex_0x4 = 0) \<and> isPowerOfTwo (tx_width tex_0x4)
   \<and> isPowerOfTwo (tx_height tex_0x4) \<and>
   setSamplerParameters tex_0x4 =
      [GenerateMipmap GL_TEXTURE_2D,
       TexParameteri GL_TEXTURE_2D GL_TEXTURE_MAG_FILTER GL_LINEAR,
       TexParameteri GL_TEXTURE_2D GL_TEXTURE_MIN_FILTER GL_LINEAR_MIPMAP_LINEAR,
       TexParameteri GL_TEXTURE_2D GL_TEXTURE_WRAP_S GL_REPEAT,
       TexParameteri GL_TEXTURE_2D GL_TEXTURE_WRAP_T GL_REPEAT]"
proof -
  have a: "tx_width tex_0x4 = 0 \<or> tx_height tex_0x4 = 0"
    by (simp add: tex_0x4_def tex_0x3_def)
  have b: "isPowerOfTwo (tx_width tex_0x4)"
    by (simp add: tex_0x4_def tex_0x3_def isPowerOfTwo_def)
  have c: "isPowerOfTwo (tx_height tex_0x4)"
    by (simp add: tex_0x4_def tex_0x3_def isPowerOfTwo_def)
  show ?thesis
    using C9_zero_size_texture [OF a b c] a b c
    by (simp add: tex_0x4_def tex_0x3_def js_or_def)
qed

text \<open>
  Claim C9 as stated fails: a mipmapped texture of width 0 and height 3 is not classified
  as power-of-two; it gets the \<^verbatim>\<open>CLAMP_TO_EDGE\<close> wrap modes, the \<^verbatim>\<open>LINEAR\<close> min
  filter and no mipmap.
\<close>

theorem C9_counterexample:
  "tx_width tex_0x3 = 0 \<and> tx_mipmap tex_0x3 \<and>
   setSamplerParameters tex_0x3 =
     [TexParameteri GL_TEXTURE_2D GL_TEXTURE_MAG_FILTER GL_LINEAR,
      TexParameteri GL_TEXTURE_2D GL_TEXTURE_MIN_FILTER GL_LINEAR,
      TexParameteri GL_TEXTURE_2D GL_TEXTURE_WRAP_S GL_CLAMP_TO_EDGE,
      TexParameteri GL_TEXTURE_2D GL_TEXTURE_WRAP_T GL_CLAMP_TO_EDGE]"
  by (simp add: tex_0x3_def setSamplerParameters_def isPowerOfTwo_def js_or_def)

section \<open>The constructor without a context\<close>

text \<open>
  Claim C10. Constructing a \<^verbatim>\<open>Renderer\<close> with a \<^verbatim>\<open>null\<close> or \<^verbatim>\<open>undefined\<close> \<^verbatim>\<open>gl\<close>
  argument always throws, whatever context \<^verbatim>\<open>createWebGLContext()\<close> would supply and
  whatever the other arguments are: the constructor dereferences the parameter, not the
  stored fallback.
\<close>

theorem C10_null_gl_throws:
  "Renderer K canvas_context None mv msmv ud
     = Inl (TypeError ''Cannot read properties of null (reading 'getExtension')'')"
  by (simp add: Renderer_def)

section \<open>The first material state of a bucket\<close>

lemma and_pow2: "(x :: 32 word) AND 2 ^ k = (if bit x k then 2 ^ k else 0)"
  by (rule bit_word_eqI) (auto simp: bit_simps)

lemma sint_pow2:
  assumes k: "k < 31"
  shows "sint (2 ^ k :: 32 word) = 2 ^ k"
proof -
  have "(2 ^ k :: 32 word) = word_of_int (2 ^ k)" by simp
  then have "sint (2 ^ k :: 32 word) = signed_take_bit 31 (2 ^ k :: int)"
    by (simp only: sint_sbintrunc') simp
  also have "\<dots> = 2 ^ k"
  proof (rule signed_take_bit_int_eq_self)
    show "- (2 ^ 31) \<le> (2 ^ k :: int)" by (rule order_trans [of _ 0]) simp_all
    have "(2 :: int) ^ k < 2 ^ 31" using k by (intro power_strict_increasing) simp_all
    then show "(2 ^ k :: int) < 2 ^ 31" .
  qed
  finally show ?thesis .
qed

lemma cap_bitE:
  assumes "cap_bit lo c"
  obtains k where "lo \<le> k" "k < 31" "c = 2 ^ k"
  using assms by (auto simp: cap_bit_def)

lemma change_cap:
  assumes "cap_bit lo c"
  shows "sint (state AND c) - sint (NOT state AND c)
           = (if state AND c \<noteq> 0 then sint c else - sint c)"
proof -
  from assms obtain k where k: "lo \<le> k" "k < 31" "c = 2 ^ k" by (rule cap_bitE)
  have nz: "(2 ^ k :: 32 word) \<noteq> 0" using k(2) by (simp add: possible_bit_def)
  show ?thesis using k nz by (simp add: and_pow2 bit_simps)
qed

lemma cap_pos: "cap_bit lo c \<Longrightarrow> 0 < sint c"
  by (erule cap_bitE) (simp add: sint_pow2)

lemma cap_gt1: "cap_bit (Suc 0) c \<Longrightarrow> 1 < sint c"
  by (erule cap_bitE) (simp add: sint_pow2)

lemma setCap_first:
  "cap_bit lo c \<Longrightarrow> setCap e c (NOT state) state = [cap_call e (state AND c \<noteq> 0)]"
  using change_cap [of lo c state] cap_pos [of lo c]
  by (auto simp: setCap_def cap_call_def Let_def)

lemma not_and_xor: "((NOT x AND r) XOR (x AND r)) = (r :: 32 word)"
  by (rule bit_word_eqI) (auto simp: bit_simps)

lemma capsDiff_first: "capsDiff K state (NOT state) = CAPS_RANGE K"
  by (simp add: capsDiff_def not_and_xor)

lemma blendDiff_first:
  "blendDiff K state (NOT state) = (if state AND CAP_BLEND K = 0 then 0 else BLEND_FUNC_RANGE K)"
  by (simp add: blendDiff_def not_and_xor)

lemma depthFuncDiff_first:
  "depthFuncDiff K state (NOT state)
     = (if state AND CAP_DEPTH_TEST K = 0 then 0 else DEPTH_FUNC_RANGE K)"
  by (simp add: depthFuncDiff_def not_and_xor)

lemma not_self_neq: "(x :: 32 word) \<noteq> NOT x"
proof
  assume "x = NOT x"
  then have "bit x 0 = bit (NOT x) 0" by simp
  then show False by (simp add: bit_simps)
qed

lemma bindCaps_first:
  assumes "consts_ok K"
  shows "bindCaps K st state (NOT state) =
    (st\<lparr>colorMaskNeedsReset := (state AND CAP_COLOR_MASK K = 0),
        depthMaskNeedsReset := (state AND CAP_DEPTH_MASK K = 0)\<rparr>,
     [cap_call GL_CULL_FACE (state AND CAP_CULL_FACE K \<noteq> 0),
      cap_call GL_BLEND (state AND CAP_BLEND K \<noteq> 0),
      cap_call GL_DEPTH_TEST (state AND CAP_DEPTH_TEST K \<noteq> 0),
      cap_call GL_STENCIL_TEST (state AND CAP_STENCIL_TEST K \<noteq> 0),
      ColorMask (state AND CAP_COLOR_MASK K \<noteq> 0) (state AND CAP_COLOR_MASK K \<noteq> 0)
        (state AND CAP_COLOR_MASK K \<noteq> 0) (state AND CAP_COLOR_MASK K \<noteq> 0),
      DepthMask (state AND CAP_DEPTH_MASK K \<noteq> 0),
      StencilMask (if state AND CAP_STENCIL_MASK K \<noteq> 0 then 0xff else 0x00)])"
proof -
  from assms have c: "cap_bit 0 (CAP_CULL_FACE K)" "cap_bit 0 (CAP_BLEND K)"
    "cap_bit 0 (CAP_DEPTH_TEST K)" "cap_bit 0 (CAP_STENCIL_TEST K)"
    and m: "cap_bit 1 (CAP_COLOR_MASK K)" "cap_bit 1 (CAP_DEPTH_MASK K)"
      "cap_bit 1 (CAP_STENCIL_MASK K)"
    by (simp_all add: consts_ok_def)
  note ch = change_cap [OF m(1), of state] change_cap [OF m(2), of state]
    change_cap [OF m(3), of state]
    cap_gt1 [of "CAP_COLOR_MASK K"] cap_gt1 [of "CAP_DEPTH_MASK K"]
    cap_gt1 [of "CAP_STENCIL_MASK K"]
  show ?thesis
    unfolding bindCaps_def Let_def setCap_first [OF c(1)] setCap_first [OF c(2)]
      setCap_first [OF c(3)] setCap_first [OF c(4)]
    using ch m by auto
qed

text \<open>
  Claim C7. When \<^verbatim>\<open>_bindMaterialState\<close> is called with no previous material, the previous
  state word is the bitwise complement of the state word of the material. Every
  capability is enabled or disabled and every write mask is set, each by one call and
  according to the bit of the material; the blend function is emitted once when blending
  is enabled and the depth function once when the depth test is enabled. Nothing else of
  the state of the renderer enters the calls. (The constants of \<^verbatim>\<open>material.js\<close> are assumed
  to be single bits and non-empty ranges, \<open>consts_ok\<close>.)
\<close>

theorem C7_first_material_state:
  assumes "consts_ok K"
  shows "bindMaterialState K st m None =
    (let state = rm_state (materials st m)
     in (st\<lparr>colorMaskNeedsReset := (state AND CAP_COLOR_MASK K = 0),
            depthMaskNeedsReset := (state AND CAP_DEPTH_MASK K = 0)\<rparr>,
         [cap_call GL_CULL_FACE (state AND CAP_CULL_FACE K \<noteq> 0),
          cap_call GL_BLEND (state AND CAP_BLEND K \<noteq> 0),
          cap_call GL_DEPTH_TEST (state AND CAP_DEPTH_TEST K \<noteq> 0),
          cap_call GL_STENCIL_TEST (state AND CAP_STENCIL_TEST K \<noteq> 0),
          ColorMask (state AND CAP_COLOR_MASK K \<noteq> 0) (state AND CAP_COLOR_MASK K \<noteq> 0)
            (state AND CAP_COLOR_MASK K \<noteq> 0) (state AND CAP_COLOR_MASK K \<noteq> 0),
          DepthMask (state AND CAP_DEPTH_MASK K \<noteq> 0),
          StencilMask (if state AND CAP_STENCIL_MASK K \<noteq> 0 then 0xff else 0x00)]
         @ (if state AND CAP_BLEND K \<noteq> 0
            then [BlendFunc (blendFuncSrc K state) (blendFuncDst K state)] else [])
         @ (if state AND CAP_DEPTH_TEST K \<noteq> 0 then [DepthFunc (depthFunc K state)] else [])))"
proof -
  from assms have r: "CAPS_RANGE K \<noteq> 0" "BLEND_FUNC_RANGE K \<noteq> 0" "DEPTH_FUNC_RANGE K \<noteq> 0"
    by (simp_all add: consts_ok_def)
  show ?thesis
    unfolding bindMaterialState_def Let_def
    using r not_self_neq [of "rm_state (materials st m)"]
    by (simp add: capsDiff_first blendDiff_first depthFuncDiff_first bindCaps_first [OF assms])
qed

section \<open>Identity errors\<close>

lemma getMaterialProgram_throws_iff:
  "isl (snd (snd (getMaterialProgram st mat rp))) = identity_missing mat"
  by (simp add: getMaterialProgram_def identity_missing_def Let_def split: option.splits)

lemma getMaterialProgram_throw_pure:
  "identity_missing mat \<Longrightarrow>
     fst (getMaterialProgram st mat rp) = st \<and> fst (snd (getMaterialProgram st mat rp)) = []"
  by (cases "materialName mat"; cases "vertexSource mat"; cases "fragmentSource mat")
    (simp_all add: getMaterialProgram_def identity_missing_def)

lemma getMaterialProgram_buckets:
  "renderPrimitives (fst (getMaterialProgram st mat rp)) = renderPrimitives st"
  by (simp add: getMaterialProgram_def Let_def split: option.splits)

lemma getRenderTexture_throws_iff:
  "isl (snd (snd (getRenderTexture st tx))) =
     (case tx of None \<Rightarrow> False | Some t \<Rightarrow> \<not> valid_key (textureKey t))"
  by (simp add: getRenderTexture_def valid_key_def Let_def
      split: option.splits texture_kind.splits)

lemma getRenderTexture_throw:
  "\<not> valid_key (textureKey tx) \<Longrightarrow>
     getRenderTexture st (Some tx) = (st, [], Inl (Error ''Texure does not have a valid key''))"
  by (simp add: getRenderTexture_def valid_key_def split: option.splits)

lemma getRenderTexture_null: "getRenderTexture st None = (st, [], Inr TexNull)"
  by (simp add: getRenderTexture_def)

lemma getRenderTexture_buckets:
  "renderPrimitives (fst (getRenderTexture st tx)) = renderPrimitives st"
  by (simp add: getRenderTexture_def Let_def split: option.splits texture_kind.splits)

lemma make_samplers_throws_iff:
  "isl (snd (snd (make_samplers st ms i))) =
     list_ex (\<lambda>(n, t). case t of None \<Rightarrow> False | Some tx \<Rightarrow> \<not> valid_key (textureKey tx)) ms"
proof (induction ms arbitrary: st i)
  case Nil
  show ?case by simp
next
  case (Cons a ms)
  obtain n tx where a: "a = (n, tx)" by (cases a)
  obtain st1 c1 r1 where g: "getRenderTexture st tx = (st1, c1, r1)" by (cases "getRenderTexture st tx")
  have t: "isl r1 = (case tx of None \<Rightarrow> False | Some t \<Rightarrow> \<not> valid_key (textureKey t))"
    using getRenderTexture_throws_iff [of st tx] g by simp
  show ?case
  proof (cases r1)
    case (Inl e)
    with a g t show ?thesis by simp
  next
    case (Inr r)
    obtain st2 c2 r2 where m: "make_samplers st1 ms (Suc i) = (st2, c2, r2)"
      by (cases "make_samplers st1 ms (Suc i)")
    from Cons.IH [of st1 "Suc i"] m
    have "isl r2 = list_ex (\<lambda>(n, t). case t of None \<Rightarrow> False
        | Some tx \<Rightarrow> \<not> valid_key (textureKey tx)) ms" by simp
    with a g t Inr m show ?thesis by (cases r2) simp_all
  qed
qed

lemma make_samplers_buckets:
  "renderPrimitives (fst (make_samplers st ms i)) = renderPrimitives st"
proof (induction ms arbitrary: st i)
  case Nil
  show ?case by simp
next
  case (Cons a ms)
  obtain n tx where a: "a = (n, tx)" by (cases a)
  obtain st1 c1 r1 where g: "getRenderTexture st tx = (st1, c1, r1)" by (cases "getRenderTexture st tx")
  have b1: "renderPrimitives st1 = renderPrimitives st"
    using getRenderTexture_buckets [of st tx] g by simp
  show ?case
  proof (cases r1)
    case (Inl e)
    with a g b1 show ?thesis by simp
  next
    case (Inr r)
    obtain st2 c2 r2 where m: "make_samplers st1 ms (Suc i) = (st2, c2, r2)"
      by (cases "make_samplers st1 ms (Suc i)")
    from Cons.IH [of st1 "Suc i"] m b1 have "renderPrimitives st2 = renderPrimitives st" by simp
    with a g Inr m show ?thesis by (cases r2) simp_all
  qed
qed

lemma RenderMaterial_throws_iff:
  "isl (snd (snd (RenderMaterial K st mat prog))) = texture_key_missing mat"
proof -
  obtain st1 c1 r1 where m: "make_samplers st (m_samplers mat) 0 = (st1, c1, r1)"
    by (cases "make_samplers st (m_samplers mat) 0")
  with make_samplers_throws_iff [of st "m_samplers mat" 0]
  have "isl r1 = texture_key_missing mat" by (simp add: texture_key_missing_def)
  with m show ?thesis by (cases r1) (simp_all add: RenderMaterial_def Let_def)
qed

lemma RenderMaterial_throw_buckets:
  "isl (snd (snd (RenderMaterial K st mat prog))) \<Longrightarrow>
     renderPrimitives (fst (RenderMaterial K st mat prog)) = renderPrimitives st"
proof -
  obtain st1 c1 r1 where m: "make_samplers st (m_samplers mat) 0 = (st1, c1, r1)"
    by (cases "make_samplers st (m_samplers mat) 0")
  with make_samplers_buckets [of st "m_samplers mat" 0]
  have "renderPrimitives st1 = renderPrimitives st" by simp
  with m show ?thesis by (cases r1) (simp_all add: RenderMaterial_def Let_def)
qed

lemma waitForComplete_buckets: "renderPrimitives (waitForComplete st p) = renderPrimitives st"
  by (simp add: waitForComplete_def Let_def)

lemma setPrimitive_buckets: "renderPrimitives (setPrimitive st p g) = renderPrimitives st"
  by (simp add: setPrimitive_def Let_def waitForComplete_buckets)

lemma RenderPrimitive_buckets: "renderPrimitives (fst (RenderPrimitive st g)) = renderPrimitives st"
  by (simp add: RenderPrimitive_def Let_def setPrimitive_buckets)

lemma createRenderPrimitive_throws_iff:
  "isl (snd (snd (createRenderPrimitive K st g mat))) = (identity_missing mat \<or> texture_key_missing mat)"
proof -
  obtain st1 p where rp: "RenderPrimitive st g = (st1, p)" by (cases "RenderPrimitive st g")
  obtain st2 c2 r2 where gm: "getMaterialProgram st1 mat (prims st1 p) = (st2, c2, r2)"
    by (cases "getMaterialProgram st1 mat (prims st1 p)")
  have i: "isl r2 = identity_missing mat"
    using getMaterialProgram_throws_iff [of st1 mat "prims st1 p"] gm by simp
  show ?thesis
  proof (cases r2)
    case (Inl e)
    with rp gm i show ?thesis by (simp add: createRenderPrimitive_def)
  next
    case (Inr prog)
    obtain st3 c3 r3 where m: "RenderMaterial K st2 mat prog = (st3, c3, r3)"
      by (cases "RenderMaterial K st2 mat prog")
    have "isl r3 = texture_key_missing mat"
      using RenderMaterial_throws_iff [of K st2 mat prog] m by simp
    with rp gm i Inr m show ?thesis
      by (cases r3) (simp_all add: createRenderPrimitive_def Let_def)
  qed
qed

lemma createRenderPrimitive_throw_identity:
  assumes "identity_missing mat"
  shows "createRenderPrimitive K st g mat =
     getMaterialProgram (fst (RenderPrimitive st g)) mat
       (prims (fst (RenderPrimitive st g)) (snd (RenderPrimitive st g)))"
proof -
  obtain st1 p where rp: "RenderPrimitive st g = (st1, p)" by (cases "RenderPrimitive st g")
  obtain st2 c2 r2 where gm: "getMaterialProgram st1 mat (prims st1 p) = (st2, c2, r2)"
    by (cases "getMaterialProgram st1 mat (prims st1 p)")
  have "isl r2"
    using getMaterialProgram_throws_iff [of st1 mat "prims st1 p"] gm assms by simp
  then obtain e where "r2 = Inl e" by (cases r2) simp_all
  with rp gm show ?thesis by (simp add: createRenderPrimitive_def)
qed

lemma createRenderPrimitive_throw_buckets:
  assumes "isl (snd (snd (createRenderPrimitive K st g mat)))"
  shows "renderPrimitives (fst (createRenderPrimitive K st g mat)) = renderPrimitives st"
proof -
  obtain st1 p where rp: "RenderPrimitive st g = (st1, p)" by (cases "RenderPrimitive st g")
  have b1: "renderPrimitives st1 = renderPrimitives st"
    using RenderPrimitive_buckets [of st g] rp by simp
  obtain st2 c2 r2 where gm: "getMaterialProgram st1 mat (prims st1 p) = (st2, c2, r2)"
    by (cases "getMaterialProgram st1 mat (prims st1 p)")
  have b2: "renderPrimitives st2 = renderPrimitives st1"
    using getMaterialProgram_buckets [of st1 mat "prims st1 p"] gm by simp
  show ?thesis
  proof (cases r2)
    case (Inl e)
    with rp gm b1 b2 show ?thesis by (simp add: createRenderPrimitive_def)
  next
    case (Inr prog)
    obtain st3 c3 r3 where m: "RenderMaterial K st2 mat prog = (st3, c3, r3)"
      by (cases "RenderMaterial K st2 mat prog")
    show ?thesis
    proof (cases r3)
      case (Inl e)
      then have "renderPrimitives st3 = renderPrimitives st2"
        using RenderMaterial_throw_buckets [of K st2 mat prog] m by simp
      with rp gm Inr m Inl b1 b2 show ?thesis by (simp add: createRenderPrimitive_def)
    next
      case r3: (Inr rm)
      with rp gm Inr m assms show ?thesis by (simp add: createRenderPrimitive_def Let_def)
    qed
  qed
qed

text \<open>
  Claim C4. \<^verbatim>\<open>_getMaterialProgram\<close> throws exactly when the name, the vertex source or
  the fragment source of the material is \<^verbatim>\<open>null\<close>; it throws at once, with no WebGL call
  made and the renderer unchanged, and \<^verbatim>\<open>createRenderPrimitive\<close> ends with that very
  exception. \<^verbatim>\<open>_getRenderTexture\<close> throws exactly when a texture descriptor that is not
  \<^verbatim>\<open>null\<close> lacks a valid \<^verbatim>\<open>textureKey\<close>, again at once and with nothing done; a
  \<^verbatim>\<open>null\<close> descriptor gives \<^verbatim>\<open>null\<close>. \<^verbatim>\<open>createRenderPrimitive\<close> throws exactly when one
  of the two identities is missing (the material's own, or the key of a texture of one of
  its samplers), and a primitive whose creation threw is in no bucket: nothing is retried.
\<close>

theorem C4_identity_errors:
  "isl (snd (snd (getMaterialProgram st mat rp))) = identity_missing mat
   \<and> (identity_missing mat \<longrightarrow>
        fst (getMaterialProgram st mat rp) = st \<and> fst (snd (getMaterialProgram st mat rp)) = []
        \<and> createRenderPrimitive K st g mat =
            getMaterialProgram (fst (RenderPrimitive st g)) mat
              (prims (fst (RenderPrimitive st g)) (snd (RenderPrimitive st g))))
   \<and> isl (snd (snd (getRenderTexture st (Some tx)))) = (\<not> valid_key (textureKey tx))
   \<and> (\<not> valid_key (textureKey tx) \<longrightarrow>
        getRenderTexture st (Some tx) = (st, [], Inl (Error ''Texure does not have a valid key'')))
   \<and> getRenderTexture st None = (st, [], Inr TexNull)
   \<and> isl (snd (snd (createRenderPrimitive K st g mat)))
        = (identity_missing mat \<or> texture_key_missing mat)
   \<and> (isl (snd (snd (createRenderPrimitive K st g mat))) \<longrightarrow>
        renderPrimitives (fst (createRenderPrimitive K st g mat)) = renderPrimitives st)"
  using getMaterialProgram_throws_iff [of st mat rp] getMaterialProgram_throw_pure [of mat st rp]
    createRenderPrimitive_throw_identity [of mat K st g]
    getRenderTexture_throws_iff [of st "Some tx"] getRenderTexture_throw [of tx st]
    getRenderTexture_null [of st] createRenderPrimitive_throws_iff [of K st g mat]
    createRenderPrimitive_throw_buckets [of K st g mat]
  by simp

section \<open>One render texture per key\<close>

lemma getRenderTexture_proto:
  "textureKey tx = Some key \<Longrightarrow> key \<noteq> [] \<Longrightarrow> key \<in> set object_prototype_keys \<Longrightarrow>
   getRenderTexture st (Some tx) = (st, [], Inr (TexProto key))"
  by (simp add: getRenderTexture_def)

lemma getRenderTexture_hit:
  "textureKey tx = Some key \<Longrightarrow> key \<noteq> [] \<Longrightarrow> key \<notin> set object_prototype_keys \<Longrightarrow>
   textureCache st key = Some r \<Longrightarrow>
   getRenderTexture st (Some tx) = (st, [], Inr (TexObj r))"
  by (simp add: getRenderTexture_def)

lemma getRenderTexture_miss:
  "textureKey tx = Some key \<Longrightarrow> key \<noteq> [] \<Longrightarrow> key \<notin> set object_prototype_keys \<Longrightarrow>
   textureCache st key = None \<Longrightarrow> getRenderTexture st (Some tx) = (st1, c, res) \<Longrightarrow>
   res = Inr (TexObj (next_texture st))
   \<and> textureCache st1 = (textureCache st)(key := Some (next_texture st))"
  by (cases "tx_kind tx") (auto simp: getRenderTexture_def Let_def)

section \<open>The key of a program\<close>

lemma getMaterialProgram_hit:
  "materialName mat = Some name \<Longrightarrow> vertexSource mat \<noteq> None \<Longrightarrow> fragmentSource mat \<noteq> None \<Longrightarrow>
   programCache st (getProgramKey name (getProgramDefines mat rp)) = Some prog \<Longrightarrow>
   getMaterialProgram st mat rp = (st, [], Inr prog)"
  by (auto simp: getMaterialProgram_def Let_def)

lemma getMaterialProgram_cached:
  "getMaterialProgram st mat rp = (st1, c1, Inr prog) \<Longrightarrow>
   \<exists>name. materialName mat = Some name
     \<and> programCache st1 (getProgramKey name (getProgramDefines mat rp)) = Some prog"
  by (auto simp: getMaterialProgram_def Let_def split: option.splits)

text \<open>
  Claim C2, as amended. The cache key is the material name, a colon and the
  \<^verbatim>\<open>define=value,\<close> pairs in the order in which the define dictionary enumerates them;
  the pairs are not sorted. For every material name and every two define dictionaries
  that enumerate the same pairs in the same order, \<^verbatim>\<open>_getProgramKey\<close> produces the same
  key, so program resolution returns one shared compiled program for both, whatever the
  shader sources of the second material are.
\<close>

theorem C2_same_order_same_program:
  assumes "getMaterialProgram st mat1 rp1 = (st1, c1, Inr prog)"
    and "materialName mat2 = materialName mat1"
    and "getProgramDefines mat2 rp2 = getProgramDefines mat1 rp1"
    and "vertexSource mat2 \<noteq> None" and "fragmentSource mat2 \<noteq> None"
  shows "getProgramKey name (getProgramDefines mat2 rp2)
           = foldl (\<lambda>key (define, v). key @ define @ ''='' @ v @ '','') (name @ '':'')
               (getProgramDefines mat1 rp1)
         \<and> getMaterialProgram st1 mat2 rp2 = (st1, [], Inr prog)"
proof -
  from getMaterialProgram_cached [OF assms(1)] obtain n where
    n: "materialName mat1 = Some n"
       "programCache st1 (getProgramKey n (getProgramDefines mat1 rp1)) = Some prog"
    by blast
  have "getMaterialProgram st1 mat2 rp2 = (st1, [], Inr prog)"
    by (rule getMaterialProgram_hit [of mat2 n]) (use n assms in simp_all)
  then show ?thesis by (simp add: getProgramKey_def assms(3))
qed

text \<open>
  Claim C2 as stated fails: two dictionaries with the same two pairs, added in different
  orders, give different keys.
\<close>

theorem C2_counterexample:
  "set [(''USE_NORMAL_MAP'', ''1''), (''USE_VERTEX_COLOR'', ''1'')]
     = set [(''USE_VERTEX_COLOR'', ''1''), (''USE_NORMAL_MAP'', ''1'')]
   \<and> getProgramKey ''PBR'' [(''USE_NORMAL_MAP'', ''1''), (''USE_VERTEX_COLOR'', ''1'')]
     \<noteq> getProgramKey ''PBR'' [(''USE_VERTEX_COLOR'', ''1''), (''USE_NORMAL_MAP'', ''1'')]"
  by (auto simp: getProgramKey_def)

section \<open>The theorems above at concrete inputs\<close>

lemma cap_bit_eval: "cap_bit lo c = (\<exists>k\<in>set [lo..<31]. c = 2 ^ k)"
  by (auto simp: cap_bit_def)

lemma consts_ok_K0: "consts_ok K0"
  unfolding consts_ok_def K0_def cap_bit_eval by (simp add: upt_rec)

theorem C7_first_material_state_witness:
  "consts_ok K0 \<and>
   snd (bindMaterialState K0 r1 0 None) =
     [Disable GL_CULL_FACE, Enable GL_BLEND, Enable GL_DEPTH_TEST, Disable GL_STENCIL_TEST,
      ColorMask True True True True, DepthMask True, StencilMask 0,
      BlendFunc 0 0, DepthFunc (GL_NEVER + 1)]"
proof -
  have ok: "consts_ok K0"
    unfolding consts_ok_def K0_def cap_bit_eval by (simp add: upt_rec)
  have s: "rm_state (materials r1 0) = 0x10036"
    by (simp add: r1_def)
  show ?thesis
    using C7_first_material_state [OF ok, of r1 0] ok
    by (simp add: s Let_def cap_call_def blendFuncSrc_def blendFuncDst_def depthFunc_def K0_def)
qed

theorem C4_identity_errors_witness:
  "identity_missing (mat0\<lparr>materialName := None\<rparr>)
   \<and> \<not> valid_key (textureKey tex_nokey)
   \<and> isl (snd (snd (getMaterialProgram r0 (mat0\<lparr>materialName := None\<rparr>) (prims r0 0))))
   \<and> fst (getMaterialProgram r0 (mat0\<lparr>materialName := None\<rparr>) (prims r0 0)) = r0
   \<and> getRenderTexture r0 (Some tex_nokey) = (r0, [], Inl (Error ''Texure does not have a valid key''))
   \<and> isl (snd (snd (createRenderPrimitive K0 r0 geom0 (mat0\<lparr>materialName := None\<rparr>))))
   \<and> renderPrimitives (fst (createRenderPrimitive K0 r0 geom0 (mat0\<lparr>materialName := None\<rparr>)))
       = renderPrimitives r0"
proof -
  have a: "identity_missing (mat0\<lparr>materialName := None\<rparr>)"
    by (simp add: identity_missing_def)
  have b: "\<not> valid_key (textureKey tex_nokey)"
    by (simp add: valid_key_def tex_nokey_def)
  show ?thesis
    using C4_identity_errors [of r0 "mat0\<lparr>materialName := None\<rparr>" "prims r0 0" K0 geom0 tex_nokey]
      a b
    by blast
qed

theorem C2_same_order_same_program_witness:
  "snd (snd (getMaterialProgram r0 mat0 (prims r0 0))) = Inr 0
   \<and> getMaterialProgram (fst (getMaterialProgram r0 mat0 (prims r0 0)))
        (mat0\<lparr>vertexSource := Some ''other_vertex_main''\<rparr>) (prims r0 1)
      = (fst (getMaterialProgram r0 mat0 (prims r0 0)), [], Inr 0)"
proof -
  have a: "snd (snd (getMaterialProgram r0 mat0 (prims r0 0))) = Inr 0"
    by (simp add: getMaterialProgram_def r0_def Renderer_def mat0_def Let_def)
  have c: "getMaterialProgram r0 mat0 (prims r0 0)
      = (fst (getMaterialProgram r0 mat0 (prims r0 0)),
         fst (snd (getMaterialProgram r0 mat0 (prims r0 0))), Inr 0)"
    using a by (simp add: prod_eq_iff)
  have d: "getProgramDefines (mat0\<lparr>vertexSource := Some ''other_vertex_main''\<rparr>) (prims r0 1)
             = getProgramDefines mat0 (prims r0 0)"
    by (simp add: mat0_def)
  show ?thesis
    using C2_same_order_same_program [OF c _ d, of "''PBR''"] a
    by (simp add: mat0_def)
qed

section \<open>What marking and drawing leave alone\<close>

lemma static_refl: "static st st"
  by (simp add: static_def)

lemma static_trans: "static st st1 \<Longrightarrow> static st1 st2 \<Longrightarrow> static st st2"
  by (simp add: static_def)

lemma mark_rel_refl: "mark_rel f st st"
  by (simp add: mark_rel_def static_refl)

lemma mark_rel_trans:
  assumes "mark_rel f st st1" and "mark_rel f st1 st2"
  shows "mark_rel f st st2"
proof -
  have s: "static st st2" using assms by (auto simp: mark_rel_def intro: static_trans)
  have p1: "\<And>p. prims st1 p = (prims st p)\<lparr>rp_activeFrameId := rp_activeFrameId (prims st1 p)\<rparr>"
    and p2: "\<And>p. prims st2 p = (prims st1 p)\<lparr>rp_activeFrameId := rp_activeFrameId (prims st2 p)\<rparr>"
    using assms by (simp_all add: mark_rel_def)
  have c1: "\<And>p. rp_activeFrameId (prims st1 p) \<noteq> rp_activeFrameId (prims st p)
      \<Longrightarrow> rp_complete (prims st p) \<and> rp_activeFrameId (prims st1 p) = f"
    and c2: "\<And>p. rp_activeFrameId (prims st2 p) \<noteq> rp_activeFrameId (prims st1 p)
      \<Longrightarrow> rp_complete (prims st1 p) \<and> rp_activeFrameId (prims st2 p) = f"
    using assms by (simp_all add: mark_rel_def)
  have a: "prims st2 p = (prims st p)\<lparr>rp_activeFrameId := rp_activeFrameId (prims st2 p)\<rparr>" for p
    by (subst p2, subst p1) simp
  have cpl: "rp_complete (prims st1 p) = rp_complete (prims st p)" for p
    by (subst p1) simp
  have b: "rp_activeFrameId (prims st2 p) \<noteq> rp_activeFrameId (prims st p)
      \<longrightarrow> rp_complete (prims st p) \<and> rp_activeFrameId (prims st2 p) = f" for p
    using c1 [of p] c2 [of p] cpl [of p] by (cases "rp_activeFrameId (prims st2 p) = rp_activeFrameId (prims st1 p)") auto
  show ?thesis unfolding mark_rel_def using s a b by blast
qed

lemma draw_rel_refl: "draw_rel st st"
  by (simp add: draw_rel_def static_refl)

lemma draw_rel_trans:
  assumes "draw_rel st st1" and "draw_rel st1 st2"
  shows "draw_rel st st2"
proof -
  have s: "static st st2" using assms by (auto simp: draw_rel_def intro: static_trans)
  have n: "node_activeFrameId st2 = node_activeFrameId st" using assms by (simp add: draw_rel_def)
  have p1: "\<And>p. prims st1 p = (prims st p)\<lparr>rp_vao := rp_vao (prims st1 p)\<rparr>"
    and p2: "\<And>p. prims st2 p = (prims st1 p)\<lparr>rp_vao := rp_vao (prims st2 p)\<rparr>"
    using assms by (simp_all add: draw_rel_def)
  have a: "prims st2 p = (prims st p)\<lparr>rp_vao := rp_vao (prims st2 p)\<rparr>" for p
    by (subst p2, subst p1) simp
  show ?thesis unfolding draw_rel_def using s n a by blast
qed

lemma RenderTexture_markActive_rel: "mark_rel f st (fst (RenderTexture_markActive st r f))"
  by (simp add: RenderTexture_markActive_def Let_def mark_rel_def static_def split: option.splits)

lemma markActive_samplers_rel: "mark_rel f st (fst (markActive_samplers st f ss))"
proof (induction ss arbitrary: st)
  case Nil
  show ?case by (simp add: mark_rel_refl)
next
  case (Cons s ss)
  obtain n r i where s: "s = (n, r, i)" by (cases s)
  show ?case
  proof (cases r)
    case TexNull
    with s Cons.IH [of st] show ?thesis by simp
  next
    case (TexProto k)
    with s show ?thesis by (simp add: mark_rel_refl)
  next
    case (TexObj t)
    show ?thesis
    proof (cases "rt_complete (textures st t)")
      case False
      with s TexObj show ?thesis by (simp add: mark_rel_refl)
    next
      case True
      obtain st1 c1 where a: "RenderTexture_markActive st t f = (st1, c1)"
        by (cases "RenderTexture_markActive st t f")
      obtain st2 c2 b where m: "markActive_samplers st1 f ss = (st2, c2, b)"
        by (cases "markActive_samplers st1 f ss")
      have "mark_rel f st st1" using RenderTexture_markActive_rel [of f st t] a by simp
      moreover have "mark_rel f st1 st2" using Cons.IH [of st1] m by simp
      ultimately have "mark_rel f st st2" by (rule mark_rel_trans)
      with s TexObj True a m show ?thesis by simp
    qed
  qed
qed

lemma RenderMaterial_markActive_rel: "mark_rel f st (fst (RenderMaterial_markActive st m f))"
proof (cases "rm_activeFrameId (materials st m) \<noteq> f")
  case False
  then show ?thesis by (simp add: RenderMaterial_markActive_def mark_rel_refl)
next
  case True
  obtain st1 c1 b where s: "markActive_samplers st f (rm_samplers (materials st m)) = (st1, c1, b)"
    by (cases "markActive_samplers st f (rm_samplers (materials st m))")
  have r: "mark_rel f st st1"
    using markActive_samplers_rel [of f st "rm_samplers (materials st m)"] s by simp
  have "mark_rel f st1 (st1\<lparr>materials := (materials st1)(m := (materials st m)
      \<lparr>rm_activeFrameId := f, rm_completeForActiveFrame := b\<rparr>)\<rparr>)"
    using r by (simp add: mark_rel_def static_def)
  with r have "mark_rel f st (st1\<lparr>materials := (materials st1)(m := (materials st m)
      \<lparr>rm_activeFrameId := f, rm_completeForActiveFrame := b\<rparr>)\<rparr>)"
    by (rule mark_rel_trans)
  with True s show ?thesis by (simp add: RenderMaterial_markActive_def Let_def)
qed

lemma mark_rel_stamp:
  "rp_complete (prims st p) \<Longrightarrow>
   mark_rel f st (st\<lparr>prims := (prims st)(p := (prims st p)\<lparr>rp_activeFrameId := f\<rparr>)\<rparr>)"
  by (simp add: mark_rel_def static_def)

lemma mark_rel_complete: "mark_rel f st st1 \<Longrightarrow> rp_complete (prims st1 p) = rp_complete (prims st p)"
proof -
  assume "mark_rel f st st1"
  then have "prims st1 p = (prims st p)\<lparr>rp_activeFrameId := rp_activeFrameId (prims st1 p)\<rparr>"
    by (simp add: mark_rel_def)
  then show ?thesis by (metis render_primitive.select_convs(8) render_primitive.surjective render_primitive.update_convs(1))
qed

lemma RenderPrimitive_markActive_rel: "mark_rel f st (fst (RenderPrimitive_markActive st p f))"
proof (cases "rp_complete (prims st p) \<and> rp_activeFrameId (prims st p) \<noteq> f")
  case False
  then show ?thesis by (auto simp: RenderPrimitive_markActive_def mark_rel_refl)
next
  case True
  show ?thesis
  proof (cases "rp_material (prims st p)")
    case None
    with True mark_rel_stamp [of st p f] show ?thesis
      by (simp add: RenderPrimitive_markActive_def)
  next
    case (Some m)
    obtain st1 c1 ok where s: "RenderMaterial_markActive st m f = (st1, c1, ok)"
      by (cases "RenderMaterial_markActive st m f")
    have r: "mark_rel f st st1" using RenderMaterial_markActive_rel [of f st m] s by simp
    have "rp_complete (prims st1 p)" using True mark_rel_complete [OF r] by simp
    then have "mark_rel f st1 (st1\<lparr>prims := (prims st1)(p := (prims st1 p)\<lparr>rp_activeFrameId := f\<rparr>)\<rparr>)"
      by (rule mark_rel_stamp)
    with r have "mark_rel f st (st1\<lparr>prims := (prims st1)(p := (prims st1 p)\<lparr>rp_activeFrameId := f\<rparr>)\<rparr>)"
      by (rule mark_rel_trans)
    with True Some s r show ?thesis by (simp add: RenderPrimitive_markActive_def)
  qed
qed

lemma markActive_primitives_rel: "mark_rel f st (fst (markActive_primitives st ps f))"
proof (induction ps arbitrary: st)
  case Nil
  show ?case by (simp add: mark_rel_refl)
next
  case (Cons p ps)
  obtain st1 c1 where a: "RenderPrimitive_markActive st p f = (st1, c1)"
    by (cases "RenderPrimitive_markActive st p f")
  obtain st2 c2 where b: "markActive_primitives st1 ps f = (st2, c2)"
    by (cases "markActive_primitives st1 ps f")
  have "mark_rel f st st1" using RenderPrimitive_markActive_rel [of f st p] a by simp
  moreover have "mark_rel f st1 st2" using Cons.IH [of st1] b by simp
  ultimately have "mark_rel f st st2" by (rule mark_rel_trans)
  with a b show ?case by simp
qed

lemma Node_markActive_rel:
  "mark_rel f st (fst (Node_markActive st nd f))"
  "mark_rel f st (fst (Node_markActive_children st nds f))"
proof (induction st nd f and st nds f rule: Node_markActive_Node_markActive_children.induct)
  case (1 st n ps cs f)
  let ?st0 = "st\<lparr>node_activeFrameId := (node_activeFrameId st)(n := f)\<rparr>"
  obtain st1 c1 where a: "markActive_primitives ?st0 ps f = (st1, c1)"
    by (cases "markActive_primitives ?st0 ps f")
  obtain st2 c2 where b: "Node_markActive_children st1 cs f = (st2, c2)"
    by (cases "Node_markActive_children st1 cs f")
  have "mark_rel f st ?st0" by (simp add: mark_rel_def static_def)
  moreover have "mark_rel f ?st0 st1" using markActive_primitives_rel [of f ?st0 ps] a by simp
  moreover have "mark_rel f st1 st2" using "1.IH" [OF a [symmetric]] b by simp
  ultimately have "mark_rel f st st2" by (blast intro: mark_rel_trans)
  with a b show ?case by simp
next
  case (2 st f)
  show ?case by (simp add: mark_rel_refl)
next
  case (3 st c cs f)
  obtain st1 c1 where a: "Node_markActive st c f = (st1, c1)" by (cases "Node_markActive st c f")
  obtain st2 c2 where b: "Node_markActive_children st1 cs f = (st2, c2)"
    by (cases "Node_markActive_children st1 cs f")
  have "mark_rel f st st1" using "3.IH"(1) a by simp
  moreover have "mark_rel f st1 st2" using "3.IH"(2) [OF a [symmetric]] b by simp
  ultimately have "mark_rel f st st2" by (rule mark_rel_trans)
  with a b show ?case by simp
qed

lemma program_use_rel: "draw_rel st (fst (program_use st prog))"
  by (simp add: program_use_def Let_def draw_rel_def static_def)

lemma bindProgram_rel: "draw_rel st (fst (bindProgram st views program prog))"
proof (cases "program \<noteq> Some prog")
  case False
  then show ?thesis by (simp add: bindProgram_def draw_rel_refl)
next
  case True
  obtain st1 c1 where u: "program_use st prog = (st1, c1)" by (cases "program_use st prog")
  with True program_use_rel [of st prog] show ?thesis by (simp add: bindProgram_def)
qed

lemma bindCaps_rel: "draw_rel st (fst (bindCaps K st state prevState))"
  by (simp add: bindCaps_def Let_def draw_rel_def static_def)

lemma bindMaterialState_rel: "draw_rel st (fst (bindMaterialState K st m prevMaterial))"
proof -
  let ?state = "rm_state (materials st m)"
  let ?prev = "case prevMaterial of Some pm \<Rightarrow> rm_state (materials st pm) | None \<Rightarrow> NOT ?state"
  obtain st1 c1 where b: "bindCaps K st ?state ?prev = (st1, c1)"
    by (cases "bindCaps K st ?state ?prev")
  with bindCaps_rel [of st K ?state ?prev] have "draw_rel st st1" by simp
  with b show ?thesis by (simp add: bindMaterialState_def Let_def draw_rel_refl)
qed

lemma RenderMaterial_bind_rel: "draw_rel st (fst (RenderMaterial_bind st m))"
proof -
  let ?rm = "materials st m"
  let ?program = "programs st (rm_program ?rm)"
  let ?rm1 = "if rm_firstBind ?rm
     then ?rm\<lparr>rm_samplers := filter (\<lambda>(n, r, i). prog_uniform ?program n \<noteq> None) (rm_samplers ?rm),
              rm_uniforms := filter (\<lambda>(n, loc, len, v). loc \<noteq> None)
                 (map (\<lambda>(n, loc, len, v). (n, prog_uniform ?program n, len, v)) (rm_uniforms ?rm)),
              rm_firstBind := False\<rparr>
     else ?rm"
  let ?st1 = "st\<lparr>materials := (materials st)(m := ?rm1)\<rparr>"
  have r: "draw_rel st ?st1" by (simp add: draw_rel_def static_def)
  obtain c1 e where b: "bind_samplers ?st1 (rm_samplers ?rm1) = (c1, e)"
    by (cases "bind_samplers ?st1 (rm_samplers ?rm1)")
  have "fst (RenderMaterial_bind st m) = ?st1"
    unfolding RenderMaterial_bind_def Let_def using b by (cases e) simp_all
  with r show ?thesis by simp
qed

lemma bindMaterial_rel: "draw_rel st (fst (bindMaterial K st material m))"
proof (cases "material \<noteq> Some m")
  case False
  then show ?thesis by (simp add: bindMaterial_def draw_rel_refl)
next
  case True
  obtain st1 c1 where a: "bindMaterialState K st m material = (st1, c1)"
    by (cases "bindMaterialState K st m material")
  obtain st2 c2 e where b: "RenderMaterial_bind st1 m = (st2, c2, e)"
    by (cases "RenderMaterial_bind st1 m")
  have "draw_rel st st1" using bindMaterialState_rel [of st K m material] a by simp
  moreover have "draw_rel st1 st2" using RenderMaterial_bind_rel [of st1 m] b by simp
  ultimately have "draw_rel st st2" by (rule draw_rel_trans)
  with True a b show ?thesis by (simp add: bindMaterial_def)
qed

lemma bindVertices_rel: "draw_rel st (fst (bindVertices st p attribMask))"
  by (simp add: bindVertices_def Let_def draw_rel_def static_def split: option.splits)

lemma drawPrimitive_rel: "draw_rel st (fst (drawPrimitive K st views depthData vars p))"
proof -
  obtain program material attribMask where v: "vars = (program, material, attribMask)"
    by (cases vars)
  show ?thesis
  proof (cases "rp_material (prims st p)")
    case None
    with v show ?thesis by (simp add: drawPrimitive_def draw_rel_refl)
  next
    case (Some m)
    let ?prog = "rm_program (materials st m)"
    obtain st1 c1 where a: "bindProgram st views program ?prog = (st1, c1)"
      by (cases "bindProgram st views program ?prog")
    obtain st2 c2 e2 where b: "bindMaterial K st1 material m = (st2, c2, e2)"
      by (cases "bindMaterial K st1 material m")
    obtain st3 c3 am where c: "bindVertices st2 p attribMask = (st3, c3, am)"
      by (cases "bindVertices st2 p attribMask")
    obtain c4 e4 where d: "viewLoop st3 views depthData ?prog m p [0..<length views] = (c4, e4)"
      by (cases "viewLoop st3 views depthData ?prog m p [0..<length views]")
    have r1: "draw_rel st st1" using bindProgram_rel [of st views program ?prog] a by simp
    have r2: "draw_rel st1 st2" using bindMaterial_rel [of st1 K material m] b by simp
    have r3: "draw_rel st2 st3" using bindVertices_rel [of st2 p attribMask] c by simp
    have r12: "draw_rel st st2" using r1 r2 by (rule draw_rel_trans)
    have r13: "draw_rel st st3" using r12 r3 by (rule draw_rel_trans)
    show ?thesis
    proof (cases e2)
      case None
      with v Some a b c d r13 show ?thesis by (simp add: drawPrimitive_def Let_def)
    next
      case (Some e)
      with v \<open>rp_material (prims st p) = Some m\<close> a b r12 show ?thesis
        by (simp add: drawPrimitive_def Let_def)
    qed
  qed
qed

lemma draw_call_vao: "draw_call (rp\<lparr>rp_vao := v\<rparr>) = draw_call rp"
  by (simp add: draw_call_def split: option.splits)

lemma draw_rel_prim:
  assumes "draw_rel st st1"
  shows "rp_activeFrameId (prims st1 p) = rp_activeFrameId (prims st p)"
    and "rp_instances (prims st1 p) = rp_instances (prims st p)"
    and "rp_material (prims st1 p) = rp_material (prims st p)"
    and "rp_complete (prims st1 p) = rp_complete (prims st p)"
    and "rp_attributeBuffers (prims st1 p) = rp_attributeBuffers (prims st p)"
    and "rp_indexBuffer (prims st1 p) = rp_indexBuffer (prims st p)"
    and "draw_call (prims st1 p) = draw_call (prims st p)"
proof -
  from assms have e: "prims st1 p = (prims st p)\<lparr>rp_vao := rp_vao (prims st1 p)\<rparr>"
    by (simp add: draw_rel_def)
  show "rp_activeFrameId (prims st1 p) = rp_activeFrameId (prims st p)" by (subst e) simp
  show "rp_instances (prims st1 p) = rp_instances (prims st p)" by (subst e) simp
  show "rp_material (prims st1 p) = rp_material (prims st p)" by (subst e) simp
  show "rp_complete (prims st1 p) = rp_complete (prims st p)" by (subst e) simp
  show "rp_attributeBuffers (prims st1 p) = rp_attributeBuffers (prims st p)" by (subst e) simp
  show "rp_indexBuffer (prims st1 p) = rp_indexBuffer (prims st p)" by (subst e) simp
  show "draw_call (prims st1 p) = draw_call (prims st p)"
    by (metis e draw_call_vao)
qed

lemma draw_rel_static: "draw_rel st st1 \<Longrightarrow> static st st1"
  by (simp add: draw_rel_def)

lemma mark_rel_static: "mark_rel f st st1 \<Longrightarrow> static st st1"
  by (simp add: mark_rel_def)

lemma mark_rel_prim:
  assumes "mark_rel f st st1"
  shows "rp_instances (prims st1 p) = rp_instances (prims st p)"
    and "rp_material (prims st1 p) = rp_material (prims st p)"
    and "rp_complete (prims st1 p) = rp_complete (prims st p)"
    and "rp_attributeBuffers (prims st1 p) = rp_attributeBuffers (prims st p)"
    and "rp_indexBuffer (prims st1 p) = rp_indexBuffer (prims st p)"
    and "\<not> rp_complete (prims st p) \<Longrightarrow> rp_activeFrameId (prims st1 p) = rp_activeFrameId (prims st p)"
proof -
  from assms have e: "prims st1 p = (prims st p)\<lparr>rp_activeFrameId := rp_activeFrameId (prims st1 p)\<rparr>"
    by (simp add: mark_rel_def)
  show "rp_instances (prims st1 p) = rp_instances (prims st p)" by (subst e) simp
  show "rp_material (prims st1 p) = rp_material (prims st p)" by (subst e) simp
  show "rp_complete (prims st1 p) = rp_complete (prims st p)" by (subst e) simp
  show "rp_attributeBuffers (prims st1 p) = rp_attributeBuffers (prims st p)" by (subst e) simp
  show "rp_indexBuffer (prims st1 p) = rp_indexBuffer (prims st p)" by (subst e) simp
  show "\<not> rp_complete (prims st p) \<Longrightarrow> rp_activeFrameId (prims st1 p) = rp_activeFrameId (prims st p)"
    using assms by (auto simp: mark_rel_def)
qed

lemma drawPrimitives_rel: "draw_rel st (fst (drawPrimitives K st views depthData vars ps))"
proof (induction ps arbitrary: st vars)
  case Nil
  show ?case by (simp add: draw_rel_refl)
next
  case (Cons p ps)
  show ?case
  proof (cases "rp_activeFrameId (prims st p) \<noteq> frameId st")
    case True
    with Cons.IH [of st vars] show ?thesis by simp
  next
    case False
    obtain st1 vars1 c1 e1 where a: "drawPrimitive K st views depthData vars p = (st1, vars1, c1, e1)"
      by (cases "drawPrimitive K st views depthData vars p")
    have r1: "draw_rel st st1" using drawPrimitive_rel [of st K views depthData vars p] a by simp
    show ?thesis
    proof (cases e1)
      case (Some e)
      with False a r1 show ?thesis by simp
    next
      case None
      obtain st2 c2 e2 where b: "drawPrimitives K st1 views depthData vars1 ps = (st2, c2, e2)"
        by (cases "drawPrimitives K st1 views depthData vars1 ps")
      have "draw_rel st1 st2" using Cons.IH [of st1 vars1] b by simp
      with r1 have "draw_rel st st2" by (rule draw_rel_trans)
      with False a None b show ?thesis by simp
    qed
  qed
qed

lemma drawBucket_rel: "draw_rel st (fst (drawBucket K st views depthData b))"
  by (cases b) (simp_all add: drawBucket_def draw_rel_refl drawRenderPrimitiveSet_def drawPrimitives_rel)

lemma drawBuckets_rel: "draw_rel st (fst (drawBuckets K st views depthData bs))"
proof (induction bs arbitrary: st)
  case Nil
  show ?case by (simp add: draw_rel_refl)
next
  case (Cons b bs)
  obtain st1 c1 e1 where a: "drawBucket K st views depthData b = (st1, c1, e1)"
    by (cases "drawBucket K st views depthData b")
  have r1: "draw_rel st st1" using drawBucket_rel [of st K views depthData b] a by simp
  show ?case
  proof (cases e1)
    case (Some e)
    with a r1 show ?thesis by simp
  next
    case None
    obtain st2 c2 e2 where b: "drawBuckets K st1 views depthData bs = (st2, c2, e2)"
      by (cases "drawBuckets K st1 views depthData bs")
    have "draw_rel st1 st2" using Cons.IH [of st1] b by simp
    with r1 have "draw_rel st st2" by (rule draw_rel_trans)
    with a None b show ?thesis by simp
  qed
qed

section \<open>Where the draw calls and the multiview uploads of a frame come from\<close>

lemma quiet_RenderTexture_markActive: "list_all quiet (snd (RenderTexture_markActive st r f))"
  by (simp add: RenderTexture_markActive_def Let_def quiet_def split: option.splits)

lemma quiet_markActive_samplers: "list_all quiet (fst (snd (markActive_samplers st f ss)))"
proof (induction ss arbitrary: st)
  case Nil
  show ?case by simp
next
  case (Cons s ss)
  obtain n r i where s: "s = (n, r, i)" by (cases s)
  show ?case
  proof (cases r)
    case TexNull
    with s Cons.IH [of st] show ?thesis by simp
  next
    case (TexProto k)
    with s show ?thesis by simp
  next
    case (TexObj t)
    obtain st1 c1 where a: "RenderTexture_markActive st t f = (st1, c1)"
      by (cases "RenderTexture_markActive st t f")
    obtain st2 c2 b where m: "markActive_samplers st1 f ss = (st2, c2, b)"
      by (cases "markActive_samplers st1 f ss")
    have "list_all quiet c1" using quiet_RenderTexture_markActive [of st t f] a by simp
    moreover have "list_all quiet c2" using Cons.IH [of st1] m by simp
    ultimately show ?thesis using s TexObj a m by simp
  qed
qed

lemma quiet_RenderMaterial_markActive: "list_all quiet (fst (snd (RenderMaterial_markActive st m f)))"
proof -
  obtain st1 c1 b where s: "markActive_samplers st f (rm_samplers (materials st m)) = (st1, c1, b)"
    by (cases "markActive_samplers st f (rm_samplers (materials st m))")
  have "list_all quiet c1"
    using quiet_markActive_samplers [of st f "rm_samplers (materials st m)"] s by simp
  with s show ?thesis by (simp add: RenderMaterial_markActive_def Let_def)
qed

lemma quiet_RenderPrimitive_markActive: "list_all quiet (snd (RenderPrimitive_markActive st p f))"
proof (cases "rp_material (prims st p)")
  case None
  then show ?thesis by (simp add: RenderPrimitive_markActive_def Let_def)
next
  case (Some m)
  obtain st1 c1 ok where s: "RenderMaterial_markActive st m f = (st1, c1, ok)"
    by (cases "RenderMaterial_markActive st m f")
  have "list_all quiet c1" using quiet_RenderMaterial_markActive [of st m f] s by simp
  with Some s show ?thesis by (simp add: RenderPrimitive_markActive_def Let_def)
qed

lemma quiet_markActive_primitives: "list_all quiet (snd (markActive_primitives st ps f))"
proof (induction ps arbitrary: st)
  case Nil
  show ?case by simp
next
  case (Cons p ps)
  obtain st1 c1 where a: "RenderPrimitive_markActive st p f = (st1, c1)"
    by (cases "RenderPrimitive_markActive st p f")
  obtain st2 c2 where b: "markActive_primitives st1 ps f = (st2, c2)"
    by (cases "markActive_primitives st1 ps f")
  have "list_all quiet c1" using quiet_RenderPrimitive_markActive [of st p f] a by simp
  moreover have "list_all quiet c2" using Cons.IH [of st1] b by simp
  ultimately show ?case using a b by simp
qed

lemma quiet_Node_markActive:
  "list_all quiet (snd (Node_markActive st nd f))"
  "list_all quiet (snd (Node_markActive_children st nds f))"
proof (induction st nd f and st nds f rule: Node_markActive_Node_markActive_children.induct)
  case (1 st n ps cs f)
  let ?st0 = "st\<lparr>node_activeFrameId := (node_activeFrameId st)(n := f)\<rparr>"
  obtain st1 c1 where a: "markActive_primitives ?st0 ps f = (st1, c1)"
    by (cases "markActive_primitives ?st0 ps f")
  obtain st2 c2 where b: "Node_markActive_children st1 cs f = (st2, c2)"
    by (cases "Node_markActive_children st1 cs f")
  have "list_all quiet c1" using quiet_markActive_primitives [of ?st0 ps f] a by simp
  moreover have "list_all quiet c2" using "1.IH" [OF a [symmetric]] b by simp
  ultimately show ?case using a b by simp
next
  case (2 st f)
  show ?case by simp
next
  case (3 st c cs f)
  obtain st1 c1 where a: "Node_markActive st c f = (st1, c1)" by (cases "Node_markActive st c f")
  obtain st2 c2 where b: "Node_markActive_children st1 cs f = (st2, c2)"
    by (cases "Node_markActive_children st1 cs f")
  have "list_all quiet c1" using "3.IH"(1) a by simp
  moreover have "list_all quiet c2" using "3.IH"(2) [OF a [symmetric]] b by simp
  ultimately show ?case using a b by simp
qed

lemma filter_quiet: "list_all quiet cs \<Longrightarrow> filter (\<lambda>c. \<not> quiet c) cs = []"
  by (induction cs) simp_all

lemma filter_tagged: "filter (\<lambda>tc. \<not> quiet (snd tc)) (map (Pair t) cs) = map (Pair t) (filter (\<lambda>c. \<not> quiet c) cs)"
  by (induction cs) simp_all

text \<open>A frame as a whole: the frame counter goes up by one, the scene is marked, the
  scratch array is refreshed and the buckets are drawn; the calls made around the loop
  over the buckets are neither draw calls nor multiview uploads.\<close>

lemma drawViews_phases:
  assumes "drawViews K st views (Some rootN) depthData = (st', tr, err)"
  obtains st2 c2 st3 c4 pre post where
    "Node_markActive (st\<lparr>frameId := Suc (frameId st)\<rparr>) rootN (Suc (frameId st)) = (st2, c2)"
    "st3 = st2\<lparr>cameraPositions := cameraLoop (cameraPositions st2) views [0..<length views]\<rparr>"
    "drawBuckets K st3 views depthData (renderPrimitives st3) = (st', c4, err)"
    "tr = map (Pair None) pre @ c4 @ map (Pair None) post"
    "list_all quiet pre" "list_all quiet post"
proof -
  let ?st1 = "st\<lparr>frameId := Suc (frameId st)\<rparr>"
  obtain st2 c2 where m: "Node_markActive ?st1 rootN (Suc (frameId st)) = (st2, c2)"
    by (cases "Node_markActive ?st1 rootN (Suc (frameId st))")
  let ?st3 = "st2\<lparr>cameraPositions := cameraLoop (cameraPositions st2) views [0..<length views]\<rparr>"
  let ?c3 = "if length views = 1
             then (case viewport (views ! 0) of Some (x, y, w, h) \<Rightarrow> [Viewport x y w h] | None \<Rightarrow> [])
             else []"
  obtain st4 c4 e4 where d: "drawBuckets K ?st3 views depthData (renderPrimitives ?st3) = (st4, c4, e4)"
    by (cases "drawBuckets K ?st3 views depthData (renderPrimitives ?st3)")
  let ?post = "(if vaoExt st4 then [BindVertexArrayOES None] else [])
               @ (if depthMaskNeedsReset st4 then [DepthMask True] else [])
               @ (if colorMaskNeedsReset st4 then [ColorMask True True True True] else [])"
  have q2: "list_all quiet c2" using quiet_Node_markActive(1) [of ?st1 rootN "Suc (frameId st)"] m by simp
  have q3: "list_all quiet ?c3" by (simp add: quiet_def split: option.splits)
  have qp: "list_all quiet ?post" by (simp add: quiet_def)
  show ?thesis
  proof (cases e4)
    case None
    from assms m d None have "st' = st4" "err = None"
      "tr = map (Pair None) (c2 @ ?c3) @ c4 @ map (Pair None) ?post"
      by (auto simp: drawViews_def Let_def)
    then show ?thesis using that [of st2 c2 ?st3 c4 "c2 @ ?c3" ?post] m d None q2 q3 qp by simp
  next
    case (Some e)
    from assms m d Some have "st' = st4" "err = Some e"
      "tr = map (Pair None) (c2 @ ?c3) @ c4 @ map (Pair None) []"
      by (auto simp: drawViews_def Let_def)
    then show ?thesis using that [of st2 c2 ?st3 c4 "c2 @ ?c3" "[]"] m d Some q2 q3 by simp
  qed
qed

section \<open>The primitives a frame makes calls for\<close>

lemma draw_rel_active: "draw_rel st st1 \<Longrightarrow> active st1 p = active st p"
  using draw_rel_prim(1) [of st st1 p] by (simp add: active_def draw_rel_def static_def)

lemma drawPrimitives_tags:
  assumes "drawPrimitives K st views depthData vars ps = (st', tr, err)"
  shows "(\<forall>tc \<in> set tr. \<exists>p \<in> set ps. fst tc = Some p \<and> active st p)
       \<and> (\<forall>q e. err = Some (q, e) \<longrightarrow> q \<in> set ps \<and> active st q)"
  using assms
proof (induction ps arbitrary: st vars tr st' err)
  case Nil
  then show ?case by auto
next
  case (Cons p ps)
  show ?case
  proof (cases "rp_activeFrameId (prims st p) \<noteq> frameId st")
    case True
    with Cons.prems have "drawPrimitives K st views depthData vars ps = (st', tr, err)" by simp
    from Cons.IH [OF this] show ?thesis by auto
  next
    case False
    then have act: "active st p" by (simp add: active_def)
    obtain st1 vars1 c1 e1 where a: "drawPrimitive K st views depthData vars p = (st1, vars1, c1, e1)"
      by (cases "drawPrimitive K st views depthData vars p")
    have r1: "draw_rel st st1" using drawPrimitive_rel [of st K views depthData vars p] a by simp
    show ?thesis
    proof (cases e1)
      case (Some e)
      with False a Cons.prems have "tr = map (Pair (Some p)) c1" "err = Some (p, e)" by auto
      with act show ?thesis by auto
    next
      case None
      obtain st2 c2 e2 where b: "drawPrimitives K st1 views depthData vars1 ps = (st2, c2, e2)"
        by (cases "drawPrimitives K st1 views depthData vars1 ps")
      from False a None b Cons.prems have t: "tr = map (Pair (Some p)) c1 @ c2" "err = e2" by auto
      from Cons.IH [OF b] have
        ih: "\<forall>tc \<in> set c2. \<exists>p \<in> set ps. fst tc = Some p \<and> active st1 p"
            "\<forall>q e. e2 = Some (q, e) \<longrightarrow> q \<in> set ps \<and> active st1 q" by auto
      show ?thesis using t ih act draw_rel_active [OF r1] by auto
    qed
  qed
qed

lemma drawBucket_tags:
  assumes "drawBucket K st views depthData b = (st', tr, err)"
  shows "(\<forall>tc \<in> set tr. \<exists>p \<in> set (bucket_prims b). fst tc = Some p \<and> active st p)
       \<and> (\<forall>q e. err = Some (q, e) \<longrightarrow> q \<in> set (bucket_prims b) \<and> active st q)"
proof (cases b)
  case None
  with assms show ?thesis by (auto simp: drawBucket_def)
next
  case (Some ps)
  show ?thesis
  proof (cases "ps = []")
    case True
    with Some assms show ?thesis by (auto simp: drawBucket_def)
  next
    case False
    with Some assms have "drawPrimitives K st views depthData (None, None, 0) ps = (st', tr, err)"
      by (simp add: drawBucket_def drawRenderPrimitiveSet_def)
    from drawPrimitives_tags [OF this] Some show ?thesis by (simp add: bucket_prims_def)
  qed
qed

lemma drawBuckets_tags:
  assumes "drawBuckets K st views depthData bs = (st', tr, err)"
  shows "(\<forall>tc \<in> set tr. \<exists>p \<in> set (concat (map bucket_prims bs)). fst tc = Some p \<and> active st p)
       \<and> (\<forall>q e. err = Some (q, e) \<longrightarrow> q \<in> set (concat (map bucket_prims bs)) \<and> active st q)"
  using assms
proof (induction bs arbitrary: st tr st' err)
  case Nil
  then show ?case by auto
next
  case (Cons b bs)
  obtain st1 c1 e1 where a: "drawBucket K st views depthData b = (st1, c1, e1)"
    by (cases "drawBucket K st views depthData b")
  have r1: "draw_rel st st1" using drawBucket_rel [of st K views depthData b] a by simp
  note t1 = drawBucket_tags [OF a]
  show ?case
  proof (cases e1)
    case (Some e)
    with a Cons.prems have "tr = c1" "err = e1" by auto
    with t1 show ?thesis by auto
  next
    case None
    obtain st2 c2 e2 where b: "drawBuckets K st1 views depthData bs = (st2, c2, e2)"
      by (cases "drawBuckets K st1 views depthData bs")
    from a None b Cons.prems have t: "tr = c1 @ c2" "err = e2" by auto
    from Cons.IH [OF b] have
      ih: "\<forall>tc \<in> set c2. \<exists>p \<in> set (concat (map bucket_prims bs)). fst tc = Some p \<and> active st1 p"
          "\<forall>q e. e2 = Some (q, e) \<longrightarrow> q \<in> set (concat (map bucket_prims bs)) \<and> active st1 q"
      by auto
    have c1: "\<forall>tc \<in> set c1. \<exists>p \<in> set (bucket_prims b). fst tc = Some p \<and> active st p"
      using t1 by blast
    show ?thesis
    proof (intro conjI ballI allI impI)
      fix tc assume "tc \<in> set tr"
      then consider "tc \<in> set c1" | "tc \<in> set c2" using t by auto
      then show "\<exists>p \<in> set (concat (map bucket_prims (b # bs))). fst tc = Some p \<and> active st p"
      proof cases
        case 1
        with c1 show ?thesis by auto
      next
        case 2
        with ih(1) obtain p where "p \<in> set (concat (map bucket_prims bs))" "fst tc = Some p" "active st1 p"
          by blast
        then show ?thesis using draw_rel_active [OF r1, of p] by auto
      qed
    next
      fix q e assume "err = Some (q, e)"
      with t ih(2) have "q \<in> set (concat (map bucket_prims bs))" "active st1 q" by auto
      then show "q \<in> set (concat (map bucket_prims (b # bs)))" "active st q"
        using draw_rel_active [OF r1, of q] by auto
    qed
  qed
qed

text \<open>The calls of a later bucket come after the calls of an earlier one.\<close>

lemma drawBuckets_order:
  assumes "drawBuckets K st views depthData bs = (st', tr, err)"
    and "distinct (concat (map bucket_prims bs))"
    and "a < b" and "b < length bs"
    and "p \<in> set (bucket_prims (bs ! a))" and "q \<in> set (bucket_prims (bs ! b))"
    and "i < length tr" and "j < length tr"
    and "fst (tr ! i) = Some p" and "fst (tr ! j) = Some q"
  shows "i < j"
  using assms
proof (induction bs arbitrary: st tr a b i j st' err)
  case Nil
  then show ?case by simp
next
  case (Cons b0 bs)
  obtain st1 c1 e1 where one: "drawBucket K st views depthData b0 = (st1, c1, e1)"
    by (cases "drawBucket K st views depthData b0")
  obtain st2 c2 e2 where rest: "drawBuckets K st1 views depthData bs = (st2, c2, e2)"
    by (cases "drawBuckets K st1 views depthData bs")
  have tr: "tr = c1 @ (if e1 = None then c2 else [])"
    using one rest Cons.prems(1) by (cases e1) auto
  have t1: "\<forall>tc \<in> set c1. \<exists>p \<in> set (bucket_prims b0). fst tc = Some p"
    using drawBucket_tags [OF one] by blast
  have t2: "\<forall>tc \<in> set c2. \<exists>p \<in> set (concat (map bucket_prims bs)). fst tc = Some p"
    using drawBuckets_tags [OF rest] by blast
  have d: "distinct (concat (map bucket_prims bs))"
    and dis: "set (bucket_prims b0) \<inter> set (concat (map bucket_prims bs)) = {}"
    using Cons.prems(2) by auto
  from Cons.prems(3,4) obtain b' where b': "b = Suc b'" "b' < length bs" by (cases b) auto
  have q_rest: "q \<in> set (concat (map bucket_prims bs))"
    using Cons.prems(6) b' by (auto intro!: bexI [of _ "bs ! b'"])
  then have q_not0: "q \<notin> set (bucket_prims b0)" using dis by auto
  have j_ge: "length c1 \<le> j"
  proof (rule ccontr)
    assume "\<not> length c1 \<le> j"
    then have "tr ! j \<in> set c1" using tr by (simp add: nth_append)
    with t1 Cons.prems(10) q_not0 show False by auto
  qed
  show ?case
  proof (cases a)
    case 0
    with Cons.prems(5) have "p \<in> set (bucket_prims b0)" by simp
    with dis have p_not: "p \<notin> set (concat (map bucket_prims bs))" by auto
    have "i < length c1"
    proof (rule ccontr)
      assume n: "\<not> i < length c1"
      with tr Cons.prems(7) have "e1 = None" "i - length c1 < length c2" by (auto split: if_splits)
      with n tr have "tr ! i \<in> set c2" by (simp add: nth_append)
      with t2 Cons.prems(9) p_not show False by auto
    qed
    with j_ge show ?thesis by simp
  next
    case (Suc a')
    with Cons.prems(3,5) b' have a': "a' < b'" "p \<in> set (bucket_prims (bs ! a'))" by auto
    with b' have "p \<in> set (concat (map bucket_prims bs))"
      by (auto intro!: bexI [of _ "bs ! a'"])
    with dis have p_not0: "p \<notin> set (bucket_prims b0)" by auto
    have i_ge: "length c1 \<le> i"
    proof (rule ccontr)
      assume "\<not> length c1 \<le> i"
      then have "tr ! i \<in> set c1" using tr by (simp add: nth_append)
      with t1 Cons.prems(9) p_not0 show False by auto
    qed
    from i_ge j_ge tr Cons.prems(7,8) have e: "e1 = None" by (auto split: if_splits)
    with tr have tr': "tr = c1 @ c2" by simp
    have "i - length c1 < j - length c1"
    proof (rule Cons.IH [OF rest d a'(1) b'(2) a'(2)])
      show "q \<in> set (bucket_prims (bs ! b'))" using Cons.prems(6) b' by simp
      show "i - length c1 < length c2" using tr' i_ge Cons.prems(7) by simp
      show "j - length c1 < length c2" using tr' j_ge Cons.prems(8) by simp
      show "fst (c2 ! (i - length c1)) = Some p" using tr' i_ge Cons.prems(9) by (simp add: nth_append)
      show "fst (c2 ! (j - length c1)) = Some q" using tr' j_ge Cons.prems(10) by (simp add: nth_append)
    qed
    with i_ge j_ge show ?thesis by simp
  qed
qed

section \<open>What creating a render primitive does\<close>

lemma creation_rel_refl: "creation_rel st st"
  by (simp add: creation_rel_def)

lemma creation_rel_trans: "creation_rel st st1 \<Longrightarrow> creation_rel st1 st2 \<Longrightarrow> creation_rel st st2"
  by (simp add: creation_rel_def)

lemma getRenderTexture_creation: "creation_rel st (fst (getRenderTexture st tx))"
  by (simp add: getRenderTexture_def Let_def creation_rel_def
      split: option.splits texture_kind.splits)

lemma make_samplers_creation: "creation_rel st (fst (make_samplers st ms i))"
proof (induction ms arbitrary: st i)
  case Nil
  show ?case by (simp add: creation_rel_refl)
next
  case (Cons a ms)
  obtain n tx where a: "a = (n, tx)" by (cases a)
  obtain st1 c1 r1 where g: "getRenderTexture st tx = (st1, c1, r1)" by (cases "getRenderTexture st tx")
  have r1: "creation_rel st st1" using getRenderTexture_creation [of st tx] g by simp
  show ?case
  proof (cases r1)
    case (Inl e)
    with a g r1 show ?thesis by simp
  next
    case (Inr r)
    obtain st2 c2 r2 where m: "make_samplers st1 ms (Suc i) = (st2, c2, r2)"
      by (cases "make_samplers st1 ms (Suc i)")
    have "creation_rel st1 st2" using Cons.IH [of st1 "Suc i"] m by simp
    with r1 have "creation_rel st st2" by (rule creation_rel_trans)
    with a g Inr m show ?thesis by (cases r2) simp_all
  qed
qed

lemma getMaterialProgram_creation: "creation_rel st (fst (getMaterialProgram st mat rp))"
  by (simp add: getMaterialProgram_def Let_def creation_rel_def split: option.splits)

lemma RenderMaterial_creation: "creation_rel st (fst (RenderMaterial K st mat prog))"
proof -
  obtain st1 c1 r1 where m: "make_samplers st (m_samplers mat) 0 = (st1, c1, r1)"
    by (cases "make_samplers st (m_samplers mat) 0")
  have r: "creation_rel st st1" using make_samplers_creation [of st "m_samplers mat" 0] m by simp
  show ?thesis
  proof (cases r1)
    case (Inl e)
    with m r show ?thesis by (simp add: RenderMaterial_def)
  next
    case (Inr ss)
    have "creation_rel st1 (st1\<lparr>next_material := n, materials := M\<rparr>)" for n M
      by (simp add: creation_rel_def)
    with r have "creation_rel st (st1\<lparr>next_material := n, materials := M\<rparr>)" for n M
      by (rule creation_rel_trans)
    with m Inr show ?thesis by (simp add: RenderMaterial_def Let_def)
  qed
qed

lemma set_fst_add_attribute: "set (map fst (add_attribute bufs b ra)) = insert b (set (map fst bufs))"
  by (induction bufs b ra rule: add_attribute.induct) auto

lemma set_fst_fold_attributes:
  "set (map fst (foldl (\<lambda>bufs a. add_attribute bufs (pa_buffer a) (f a)) acc attrs))
     = set (map fst acc) \<union> set (map pa_buffer attrs)"
proof (induction attrs arbitrary: acc)
  case Nil
  show ?case by simp
next
  case (Cons a attrs)
  have "set (map fst (foldl (\<lambda>bufs a. add_attribute bufs (pa_buffer a) (f a)) acc (a # attrs)))
      = set (map fst (add_attribute acc (pa_buffer a) (f a))) \<union> set (map pa_buffer attrs)"
    using Cons.IH [of "add_attribute acc (pa_buffer a) (f a)"] by simp
  also have "\<dots> = set (map fst acc) \<union> set (map pa_buffer (a # attrs))"
    by (simp only: set_fst_add_attribute) auto
  finally show ?case .
qed

text \<open>\<^verbatim>\<open>setPrimitive\<close> on a primitive: its new buffers are those of the geometry, it is
  not complete, and a completion is queued when it has a material.\<close>

lemma setPrimitive_effect:
  assumes "st' = setPrimitive st p g"
  shows "renderPrimitives st' = renderPrimitives st \<and> next_prim st' = next_prim st
    \<and> next_buffer st' = next_buffer st \<and> buffers st' = buffers st
    \<and> (\<forall>q. q \<noteq> p \<longrightarrow> prims st' q = prims st q)
    \<and> buffer_refs (prims st' p) = geometry_refs g
    \<and> \<not> rp_complete (prims st' p)
    \<and> rp_activeFrameId (prims st' p) = rp_activeFrameId (prims st p)
    \<and> rp_material (prims st' p) = rp_material (prims st p)
    \<and> rp_instances (prims st' p) = rp_instances (prims st p)
    \<and> tasks st' = tasks st @ (if rp_material (prims st p) = None then []
                              else [CompletePrimitive p (pendingBuffers st (prims st' p))])"
proof -
  have refs: "fst ` set (foldl (\<lambda>bufs a. add_attribute bufs (pa_buffer a) (RenderPrimitiveAttribute a))
      [] (p_attributes g)) = pa_buffer ` set (p_attributes g)"
    using set_fst_fold_attributes [of RenderPrimitiveAttribute "[]" "p_attributes g"] by simp
  show ?thesis
  proof (cases "rp_material (prims st p)")
    case None
    then show ?thesis
      unfolding assms using refs
      by (cases "p_indexBuffer g")
         (simp_all add: setPrimitive_def Let_def buffer_refs_def geometry_refs_def)
  next
    case (Some m)
    then show ?thesis
      unfolding assms using refs
      by (cases "p_indexBuffer g")
         (simp_all add: setPrimitive_def waitForComplete_def Let_def buffer_refs_def
            geometry_refs_def pendingBuffers_def)
  qed
qed

lemma setRenderMaterial_effect:
  assumes "st' = setRenderMaterial st p m"
  shows "renderPrimitives st' = renderPrimitives st \<and> next_prim st' = next_prim st
    \<and> next_buffer st' = next_buffer st \<and> buffers st' = buffers st
    \<and> (\<forall>q. q \<noteq> p \<longrightarrow> prims st' q = prims st q)
    \<and> buffer_refs (prims st' p) = buffer_refs (prims st p)
    \<and> \<not> rp_complete (prims st' p)
    \<and> rp_activeFrameId (prims st' p) = rp_activeFrameId (prims st p)
    \<and> rp_material (prims st' p) = m
    \<and> tasks st' = tasks st @ (if m = None then []
                              else [CompletePrimitive p (pendingBuffers st (prims st' p))])"
  unfolding assms
  by (cases m)
     (simp_all add: setRenderMaterial_def waitForComplete_def Let_def buffer_refs_def
        pendingBuffers_def cong: option.case_cong)

lemma pendingBuffers_mem:
  "B \<in> buffer_refs rp \<Longrightarrow> buf_buffer (buffers st B) = None \<Longrightarrow> B \<in> set (pendingBuffers st rp)"
  by (auto simp: buffer_refs_def pendingBuffers_def split: option.splits)

lemma pendingBuffers_cong:
  "buffers st' = buffers st \<Longrightarrow> pendingBuffers st' rp = pendingBuffers st rp"
  by (simp add: pendingBuffers_def split: option.splits)

lemma RenderPrimitive_effect:
  assumes "RenderPrimitive st g = (st1, P)"
  shows "P = next_prim st \<and> next_prim st1 = Suc P \<and> renderPrimitives st1 = renderPrimitives st
    \<and> next_buffer st1 = next_buffer st \<and> buffers st1 = buffers st
    \<and> (\<forall>q. q \<noteq> P \<longrightarrow> prims st1 q = prims st q)
    \<and> buffer_refs (prims st1 P) = geometry_refs g
    \<and> \<not> rp_complete (prims st1 P) \<and> rp_activeFrameId (prims st1 P) = 0
    \<and> rp_instances (prims st1 P) = []
    \<and> tasks st1 = tasks st"
proof -
  let ?st0 = "st\<lparr>next_prim := Suc (next_prim st),
      prims := (prims st)(next_prim st := (prims st (next_prim st))\<lparr>rp_activeFrameId := 0,
        rp_instances := [], rp_material := None\<rparr>)\<rparr>"
  from assms have P: "P = next_prim st" and st1: "st1 = setPrimitive ?st0 P g"
    by (auto simp: RenderPrimitive_def Let_def)
  from setPrimitive_effect [OF st1] P show ?thesis by simp
qed

text \<open>A successful \<^verbatim>\<open>createRenderPrimitive\<close>: the new primitive is appended to the bucket
  of the render order of its material and to no other, and one completion is queued for
  it, which awaits the buffers that are pending.\<close>

lemma createRenderPrimitive_success:
  assumes "createRenderPrimitive K st g mat = (st', c, Inr P)"
  shows "P = next_prim st \<and> next_prim st' = Suc P
    \<and> next_buffer st' = next_buffer st \<and> buffers st' = buffers st
    \<and> (\<forall>q. q \<noteq> P \<longrightarrow> prims st' q = prims st q)
    \<and> buffer_refs (prims st' P) = geometry_refs g
    \<and> \<not> rp_complete (prims st' P) \<and> rp_activeFrameId (prims st' P) = 0
    \<and> (\<exists>m. rp_material (prims st' P) = Some m
          \<and> renderPrimitives st' = bucket_push (renderPrimitives st) (rm_renderOrder (materials st' m)) P)
    \<and> (\<forall>p bs. CompletePrimitive p bs \<in> set (tasks st') \<longleftrightarrow>
          CompletePrimitive p bs \<in> set (tasks st) \<or> (p = P \<and> bs = pendingBuffers st (prims st' P)))"
proof -
  obtain st1 P1 where rp: "RenderPrimitive st g = (st1, P1)" by (cases "RenderPrimitive st g")
  obtain st2 c2 r2 where gm: "getMaterialProgram st1 mat (prims st1 P1) = (st2, c2, r2)"
    by (cases "getMaterialProgram st1 mat (prims st1 P1)")
  from assms rp gm obtain prog where r2: "r2 = Inr prog"
    by (cases r2) (simp_all add: createRenderPrimitive_def)
  obtain st3 c3 r3 where rm: "RenderMaterial K st2 mat prog = (st3, c3, r3)"
    by (cases "RenderMaterial K st2 mat prog")
  from assms rp gm r2 rm obtain m where r3: "r3 = Inr m"
    by (cases r3) (simp_all add: createRenderPrimitive_def)
  define st4 where "st4 = setRenderMaterial st3 P1 (Some m)"
  from assms rp gm r2 rm r3 have P1: "P1 = P"
    and st': "st' = st4\<lparr>renderPrimitives :=
        bucket_push (renderPrimitives st4) (rm_renderOrder (materials st4 m)) P1\<rparr>"
    by (auto simp: createRenderPrimitive_def Let_def st4_def)
  note e1 = RenderPrimitive_effect [OF rp]
  have c12: "creation_rel st1 st2" using getMaterialProgram_creation [of st1 mat "prims st1 P1"] gm by simp
  have c23: "creation_rel st2 st3" using RenderMaterial_creation [of st2 K mat prog] rm by simp
  have c13: "creation_rel st1 st3" using c12 c23 by (rule creation_rel_trans)
  note e4 = setRenderMaterial_effect [OF st4_def]
  from e1 have P1n: "P1 = next_prim st" and n1: "next_prim st1 = Suc P1"
    and b1: "renderPrimitives st1 = renderPrimitives st" "next_buffer st1 = next_buffer st"
      "buffers st1 = buffers st"
    and p1: "\<forall>q. q \<noteq> P1 \<longrightarrow> prims st1 q = prims st q"
    and r1: "buffer_refs (prims st1 P1) = geometry_refs g" "rp_activeFrameId (prims st1 P1) = 0"
    and t1: "tasks st1 = tasks st"
    by blast+
  from c13 have n3: "next_prim st3 = next_prim st1"
    and b3: "renderPrimitives st3 = renderPrimitives st1" "next_buffer st3 = next_buffer st1"
      "buffers st3 = buffers st1"
    and p3: "prims st3 = prims st1"
    and t3: "\<forall>p bs. CompletePrimitive p bs \<in> set (tasks st3) \<longleftrightarrow> CompletePrimitive p bs \<in> set (tasks st1)"
    unfolding creation_rel_def by blast+
  from e4 have n4: "next_prim st4 = next_prim st3"
    and b4: "renderPrimitives st4 = renderPrimitives st3" "next_buffer st4 = next_buffer st3"
      "buffers st4 = buffers st3"
    and p4: "\<forall>q. q \<noteq> P1 \<longrightarrow> prims st4 q = prims st3 q"
    and r4: "buffer_refs (prims st4 P1) = buffer_refs (prims st3 P1)" "\<not> rp_complete (prims st4 P1)"
      "rp_activeFrameId (prims st4 P1) = rp_activeFrameId (prims st3 P1)"
      "rp_material (prims st4 P1) = Some m"
    and t4: "tasks st4 = tasks st3 @ [CompletePrimitive P1 (pendingBuffers st3 (prims st4 P1))]"
    by simp_all
  have pend: "pendingBuffers st3 (prims st4 P1) = pendingBuffers st (prims st4 P1)"
    by (rule pendingBuffers_cong) (simp add: b3 b1)
  have A: "next_prim st4 = Suc P" "P = next_prim st" "next_buffer st4 = next_buffer st"
    "buffers st4 = buffers st" "renderPrimitives st4 = renderPrimitives st"
    using P1 P1n n1 n3 n4 b1 b3 b4 by simp_all
  have B: "\<forall>q. q \<noteq> P \<longrightarrow> prims st4 q = prims st q"
    using P1 p1 p3 p4 by simp
  have C: "buffer_refs (prims st4 P) = geometry_refs g" "\<not> rp_complete (prims st4 P)"
    "rp_activeFrameId (prims st4 P) = 0" "rp_material (prims st4 P) = Some m"
    using P1 r1 r4 p3 by simp_all
  have D: "\<forall>p bs. CompletePrimitive p bs \<in> set (tasks st4) \<longleftrightarrow>
          CompletePrimitive p bs \<in> set (tasks st) \<or> (p = P \<and> bs = pendingBuffers st (prims st4 P))"
    using P1 t1 t3 t4 pend by auto
  have st'': "st' = st4\<lparr>renderPrimitives :=
        bucket_push (renderPrimitives st4) (rm_renderOrder (materials st4 m)) P\<rparr>"
    using st' P1 by simp
  show ?thesis
    unfolding st'' using A B C D by simp
qed

lemma createRenderPrimitive_failure:
  assumes "createRenderPrimitive K st g mat = (st', c, Inl e)"
  shows "next_prim st' = Suc (next_prim st) \<and> renderPrimitives st' = renderPrimitives st
    \<and> next_buffer st' = next_buffer st \<and> buffers st' = buffers st
    \<and> (\<forall>q. q \<noteq> next_prim st \<longrightarrow> prims st' q = prims st q)
    \<and> (\<forall>p bs. CompletePrimitive p bs \<in> set (tasks st') \<longleftrightarrow> CompletePrimitive p bs \<in> set (tasks st))"
proof -
  obtain st1 P1 where rp: "RenderPrimitive st g = (st1, P1)" by (cases "RenderPrimitive st g")
  obtain st2 c2 r2 where gm: "getMaterialProgram st1 mat (prims st1 P1) = (st2, c2, r2)"
    by (cases "getMaterialProgram st1 mat (prims st1 P1)")
  note e1 = RenderPrimitive_effect [OF rp]
  have c12: "creation_rel st1 st2" using getMaterialProgram_creation [of st1 mat "prims st1 P1"] gm by simp
  show ?thesis
  proof (cases r2)
    case (Inl e2)
    with assms rp gm have "st' = st2" by (auto simp: createRenderPrimitive_def)
    with c12 e1 show ?thesis by (simp add: creation_rel_def)
  next
    case (Inr prog)
    obtain st3 c3 r3 where rm: "RenderMaterial K st2 mat prog = (st3, c3, r3)"
      by (cases "RenderMaterial K st2 mat prog")
    have c23: "creation_rel st2 st3" using RenderMaterial_creation [of st2 K mat prog] rm by simp
    have c13: "creation_rel st1 st3" using c12 c23 by (rule creation_rel_trans)
    from assms rp gm Inr rm have "st' = st3"
      by (cases r3) (auto simp: createRenderPrimitive_def Let_def)
    with c13 e1 show ?thesis by (simp add: creation_rel_def)
  qed
qed


section \<open>The invariants of a renderer\<close>

lemma bucket_prims_simps [simp]: "bucket_prims None = []" "bucket_prims (Some ps) = ps"
  by (simp_all add: bucket_prims_def)

lemma concat_replicate_Nil [simp]: "concat (replicate n []) = []"
  by (induction n) simp_all

lemma concat_bucket_pad:
  "concat (map bucket_prims (bs @ replicate n None)) = concat (map bucket_prims bs)"
  by simp

lemma bucket_push_split:
  obtains A B C where
    "concat (map bucket_prims bs) = A @ B @ C"
    "concat (map bucket_prims (bucket_push bs i p)) = A @ (B @ [p]) @ C"
proof -
  define bs1 where "bs1 = (if i < length bs then bs else bs @ replicate (Suc i - length bs) None)"
  have i: "i < length bs1" by (simp add: bs1_def)
  have same: "concat (map bucket_prims bs1) = concat (map bucket_prims bs)"
    by (simp add: bs1_def concat_bucket_pad)
  have push: "bucket_push bs i p = bs1[i := Some (bucket_prims (bs1 ! i) @ [p])]"
    by (simp add: bucket_push_def bs1_def bucket_prims_def Let_def)
  let ?A = "concat (map bucket_prims (take i bs1))"
  let ?B = "bucket_prims (bs1 ! i)"
  let ?C = "concat (map bucket_prims (drop (Suc i) bs1))"
  have "bs1 = take i bs1 @ bs1 ! i # drop (Suc i) bs1" using i by (rule id_take_nth_drop)
  then have "concat (map bucket_prims bs1) = concat (map bucket_prims (take i bs1 @ bs1 ! i # drop (Suc i) bs1))"
    by simp
  then have 1: "concat (map bucket_prims bs) = ?A @ ?B @ ?C" using same by simp
  have "bucket_push bs i p = take i bs1 @ Some (?B @ [p]) # drop (Suc i) bs1"
    using i push by (simp add: upd_conv_take_nth_drop)
  then have 2: "concat (map bucket_prims (bucket_push bs i p)) = ?A @ (?B @ [p]) @ ?C"
    by simp
  from 1 2 show ?thesis by (rule that)
qed

lemma set_bucket_push:
  "set (concat (map bucket_prims (bucket_push bs i p))) = insert p (set (concat (map bucket_prims bs)))"
  by (rule bucket_push_split [of bs i p]) auto

lemma distinct_bucket_push:
  "distinct (concat (map bucket_prims bs)) \<Longrightarrow> p \<notin> set (concat (map bucket_prims bs))
     \<Longrightarrow> distinct (concat (map bucket_prims (bucket_push bs i p)))"
  by (rule bucket_push_split [of bs i p]) auto

lemma nth_bucket_push:
  "(if k < length (bucket_push bs i p) then bucket_prims (bucket_push bs i p ! k) else [])
     = (if k = i then (if i < length bs then bucket_prims (bs ! i) else []) @ [p]
        else if k < length bs then bucket_prims (bs ! k) else [])"
proof -
  define bs1 where "bs1 = (if i < length bs then bs else bs @ replicate (Suc i - length bs) None)"
  have i: "i < length bs1" by (simp add: bs1_def)
  have push: "bucket_push bs i p = bs1[i := Some (bucket_prims (bs1 ! i) @ [p])]"
    by (simp add: bucket_push_def bs1_def bucket_prims_def Let_def)
  have n1: "bucket_prims (bs1 ! j) = (if j < length bs then bucket_prims (bs ! j) else [])"
    if "j < length bs1" for j
    using that by (auto simp: bs1_def nth_append)
  have n2: "length bs \<le> length bs1" by (simp add: bs1_def)
  show ?thesis
  proof (cases "k = i")
    case True
    with i push n1 [of i] show ?thesis by simp
  next
    case False
    show ?thesis
    proof (cases "k < length bs1")
      case True
      with False push n1 [of k] show ?thesis by simp
    next
      case nk: False
      with n2 have "\<not> k < length bs" by simp
      with False nk push show ?thesis by simp
    qed
  qed
qed

lemma renderer_inv_init:
  assumes "Renderer K canvas_context gl mv msmv ud = Inr st0"
  shows "renderer_inv st0"
proof (cases gl)
  case None
  with assms show ?thesis by (simp add: Renderer_def)
next
  case (Some g)
  with assms have "renderPrimitives st0 = replicate (RENDER_ORDER_DEFAULT K) None" "tasks st0 = []"
    by (auto simp: Renderer_def)
  then show ?thesis by (simp add: renderer_inv_def all_prims_def)
qed

lemma renderer_inv_keep:
  assumes "renderer_inv st"
    and "renderPrimitives st' = renderPrimitives st" and "next_prim st \<le> next_prim st'"
    and "\<forall>p bs. CompletePrimitive p bs \<in> set (tasks st')
           \<longrightarrow> CompletePrimitive p bs \<in> set (tasks st) \<or> p < next_prim st'"
  shows "renderer_inv st'"
proof -
  have a: "all_prims st' = all_prims st" using assms(2) by (simp add: all_prims_def)
  have d: "distinct (all_prims st')" using assms(1) a by (simp add: renderer_inv_def)
  have b: "p < next_prim st'" if "p \<in> set (all_prims st')" for p
  proof -
    from that a assms(1) have "p < next_prim st" by (simp add: renderer_inv_def)
    with assms(3) show ?thesis by simp
  qed
  have c: "p < next_prim st'" if "CompletePrimitive p bs \<in> set (tasks st')" for p bs
  proof -
    from that assms(4) have "CompletePrimitive p bs \<in> set (tasks st) \<or> p < next_prim st'" by blast
    then show ?thesis
    proof
      assume "CompletePrimitive p bs \<in> set (tasks st)"
      with assms(1) have "p < next_prim st" unfolding renderer_inv_def by blast
      with assms(3) show ?thesis by simp
    qed
  qed
  from d b c show ?thesis unfolding renderer_inv_def by blast
qed

text \<open>A frame changes neither the buckets nor the buffers nor the pending completions,
  and of a render primitive at most its active frame (when it is complete) and its vertex
  array object.\<close>

lemma drawViews_effect:
  assumes "drawViews K st views rootNode depthData = (st', tr, err)"
  shows "renderPrimitives st' = renderPrimitives st \<and> next_prim st' = next_prim st
    \<and> next_buffer st' = next_buffer st \<and> buffers st' = buffers st \<and> tasks st' = tasks st
    \<and> multiview st' = multiview st \<and> textureCache st' = textureCache st
    \<and> programCache st' = programCache st
    \<and> (\<forall>p. rp_complete (prims st' p) = rp_complete (prims st p)
           \<and> rp_attributeBuffers (prims st' p) = rp_attributeBuffers (prims st p)
           \<and> rp_indexBuffer (prims st' p) = rp_indexBuffer (prims st p)
           \<and> rp_material (prims st' p) = rp_material (prims st p)
           \<and> rp_instances (prims st' p) = rp_instances (prims st p)
           \<and> (\<not> rp_complete (prims st p)
                \<longrightarrow> rp_activeFrameId (prims st' p) = rp_activeFrameId (prims st p)))"
proof (cases rootNode)
  case None
  with assms show ?thesis by (auto simp: drawViews_def)
next
  case (Some rootN)
  let ?st1 = "st\<lparr>frameId := Suc (frameId st)\<rparr>"
  from assms Some obtain st2 c2 st3 c4 pre post where
    m: "Node_markActive ?st1 rootN (Suc (frameId st)) = (st2, c2)"
    and st3: "st3 = st2\<lparr>cameraPositions := cameraLoop (cameraPositions st2) views [0..<length views]\<rparr>"
    and d: "drawBuckets K st3 views depthData (renderPrimitives st3) = (st', c4, err)"
    by (auto elim: drawViews_phases)
  have mr: "mark_rel (Suc (frameId st)) ?st1 st2"
    using Node_markActive_rel(1) [of "Suc (frameId st)" ?st1 rootN] m by simp
  have dr: "draw_rel st3 st'"
    using drawBuckets_rel [of st3 K views depthData "renderPrimitives st3"] d by simp
  have s1: "static ?st1 st2" using mr by (rule mark_rel_static)
  have s2: "static st3 st'" using dr by (rule draw_rel_static)
  have a: "renderPrimitives st' = renderPrimitives st \<and> next_prim st' = next_prim st
    \<and> next_buffer st' = next_buffer st \<and> buffers st' = buffers st \<and> tasks st' = tasks st
    \<and> multiview st' = multiview st \<and> textureCache st' = textureCache st
    \<and> programCache st' = programCache st"
    using s1 s2 st3 by (simp add: static_def)
  have p3: "prims st3 = prims st2" using st3 by simp
  have b: "rp_complete (prims st' p) = rp_complete (prims st p)
           \<and> rp_attributeBuffers (prims st' p) = rp_attributeBuffers (prims st p)
           \<and> rp_indexBuffer (prims st' p) = rp_indexBuffer (prims st p)
           \<and> rp_material (prims st' p) = rp_material (prims st p)
           \<and> rp_instances (prims st' p) = rp_instances (prims st p)
           \<and> (\<not> rp_complete (prims st p)
                \<longrightarrow> rp_activeFrameId (prims st' p) = rp_activeFrameId (prims st p))" for p
    using mark_rel_prim [OF mr, of p] draw_rel_prim [OF dr, of p] p3 by simp
  from a b show ?thesis by blast
qed

section \<open>Events\<close>

lemma runTask_effect:
  assumes "runTask st k = (st', c)"
  shows "renderPrimitives st' = renderPrimitives st \<and> next_prim st' = next_prim st
    \<and> next_buffer st' = next_buffer st \<and> buffers st' = buffers st
    \<and> set (tasks st') \<subseteq> set (tasks st)
    \<and> (\<forall>p. prims st' p \<noteq> prims st p \<longrightarrow>
          (\<exists>bs. CompletePrimitive p bs \<in> set (tasks st) \<and> (\<forall>b \<in> set bs. buf_resolved (buffers st b))
             \<and> prims st' p = (prims st p)\<lparr>rp_complete := True\<rparr>))"
proof (cases "k < length (tasks st)")
  case False
  with assms show ?thesis by (auto simp: runTask_def)
next
  case True
  have sub: "set (take k (tasks st) @ drop (Suc k) (tasks st)) \<subseteq> set (tasks st)"
    using set_take_subset [of k "tasks st"] set_drop_subset [of "Suc k" "tasks st"] by auto
  have mem: "tasks st ! k \<in> set (tasks st)" using True by simp
  show ?thesis
  proof (cases "tasks st ! k")
    case (CompletePrimitive p bs)
    show ?thesis
    proof (cases "list_all (\<lambda>b. buf_resolved (buffers st b)) bs")
      case False
      with True CompletePrimitive assms show ?thesis by (auto simp: runTask_def)
    next
      case ready: True
      with True CompletePrimitive assms have
        "st' = st\<lparr>tasks := take k (tasks st) @ drop (Suc k) (tasks st),
                  prims := (prims st)(p := (prims st p)\<lparr>rp_complete := True\<rparr>)\<rparr>"
        by (auto simp: runTask_def)
      then show ?thesis using sub mem CompletePrimitive ready
        by (auto simp: list_all_iff)
    qed
  next
    case (UploadTexture r tx)
    with True assms have
      "st' = fst (uploadTexture (st\<lparr>tasks := take k (tasks st) @ drop (Suc k) (tasks st)\<rparr>) r tx)"
      by (auto simp: runTask_def)
    then show ?thesis using sub by (simp add: uploadTexture_def Let_def)
  qed
qed

lemma renderer_inv_lt: "renderer_inv st \<Longrightarrow> p \<in> set (all_prims st) \<Longrightarrow> p < next_prim st"
  by (simp add: renderer_inv_def)

lemma renderer_inv_task:
  "renderer_inv st \<Longrightarrow> CompletePrimitive p bs \<in> set (tasks st) \<Longrightarrow> p < next_prim st"
  unfolding renderer_inv_def by blast

lemma fst_step:
  "event_ok st ev \<Longrightarrow> fst (step K st ev) =
    (case ev of
       EvCreateRenderBuffer target data usage \<Rightarrow> fst (createRenderBuffer st target data usage)
     | EvResolveBuffer b n \<Rightarrow> fst (resolveBuffer st b n)
     | EvCreateRenderPrimitive g mat \<Rightarrow> fst (createRenderPrimitive K st g mat)
     | EvAddInstance p n \<Rightarrow> addInstance st p n
     | EvSetRenderMaterial p m \<Rightarrow> setRenderMaterial st p m
     | EvSetPrimitive p g \<Rightarrow> setPrimitive st p g
     | EvRunTask k \<Rightarrow> fst (runTask st k)
     | EvVideoPlaying r tx \<Rightarrow> videoPlaying st r tx
     | EvVideoState v b \<Rightarrow> st\<lparr>video_playing := (video_playing st)(v := b)\<rparr>
     | EvWorldMatrix n m \<Rightarrow> st\<lparr>node_worldMatrix := (node_worldMatrix st)(n := m)\<rparr>
     | EvDrawViews views rootNode depthData \<Rightarrow> fst (drawViews K st views rootNode depthData))"
  by (cases ev) (simp_all add: step_def split: prod.splits sum.splits)

lemma createRenderPrimitive_inv:
  assumes "renderer_inv st"
  shows "renderer_inv (fst (createRenderPrimitive K st g mat))"
proof -
  obtain st1 c r where cr: "createRenderPrimitive K st g mat = (st1, c, r)"
    by (cases "createRenderPrimitive K st g mat")
  have "renderer_inv st1"
  proof (cases r)
    case (Inl e)
    from createRenderPrimitive_failure [OF cr [unfolded Inl]]
    show ?thesis by (intro renderer_inv_keep [OF assms]) auto
  next
    case (Inr P)
    note s = createRenderPrimitive_success [OF cr [unfolded Inr]]
    from s obtain m where
      b: "renderPrimitives st1 = bucket_push (renderPrimitives st) (rm_renderOrder (materials st1 m)) P"
      by blast
    from s have P: "P = next_prim st" "next_prim st1 = Suc P" by blast+
    from s have t: "\<forall>p bs. CompletePrimitive p bs \<in> set (tasks st1) \<longrightarrow>
        CompletePrimitive p bs \<in> set (tasks st) \<or> p = P" by blast
    from P have fresh: "P \<notin> set (all_prims st)" using renderer_inv_lt [OF assms, of P] by auto
    have d: "distinct (all_prims st1)"
      unfolding all_prims_def b
      using assms fresh by (intro distinct_bucket_push) (simp_all add: renderer_inv_def all_prims_def)
    have l: "\<forall>p \<in> set (all_prims st1). p < next_prim st1"
    proof
      fix p assume "p \<in> set (all_prims st1)"
      then have "p = P \<or> p \<in> set (all_prims st)"
        unfolding all_prims_def b set_bucket_push by simp
      then show "p < next_prim st1"
        using renderer_inv_lt [OF assms, of p] P by auto
    qed
    have c: "\<forall>p bs. CompletePrimitive p bs \<in> set (tasks st1) \<longrightarrow> p < next_prim st1"
    proof (intro allI impI)
      fix p bs assume "CompletePrimitive p bs \<in> set (tasks st1)"
      with t have "CompletePrimitive p bs \<in> set (tasks st) \<or> p = P" by blast
      then show "p < next_prim st1"
      proof
        assume "CompletePrimitive p bs \<in> set (tasks st)"
        with assms have "p < next_prim st" unfolding renderer_inv_def by blast
        with P show ?thesis by simp
      next
        assume "p = P"
        with P show ?thesis by simp
      qed
    qed
    from d l c show ?thesis unfolding renderer_inv_def by blast
  qed
  with cr show ?thesis by simp
qed

lemma step_inv:
  assumes "renderer_inv st"
  shows "renderer_inv (fst (step K st ev))"
proof (cases "event_ok st ev")
  case False
  with assms show ?thesis by (simp add: step_def)
next
  case ok: True
  show ?thesis
  proof (cases ev)
    case (EvCreateRenderBuffer target data usage)
    have "renderer_inv (fst (createRenderBuffer st target data usage))"
      by (rule renderer_inv_keep [OF assms]) (simp_all add: createRenderBuffer_def Let_def split: buffer_data.splits)
    with ok EvCreateRenderBuffer show ?thesis by (simp add: fst_step)
  next
    case (EvResolveBuffer b n)
    have "renderer_inv (fst (resolveBuffer st b n))"
      by (rule renderer_inv_keep [OF assms]) (simp_all add: resolveBuffer_def Let_def)
    with ok EvResolveBuffer show ?thesis by (simp add: fst_step)
  next
    case (EvCreateRenderPrimitive g mat)
    with ok createRenderPrimitive_inv [OF assms, of K g mat] show ?thesis by (simp add: fst_step)
  next
    case (EvAddInstance p n)
    have "renderer_inv (addInstance st p n)"
      by (rule renderer_inv_keep [OF assms]) (simp_all add: addInstance_def)
    with ok EvAddInstance show ?thesis by (simp add: fst_step)
  next
    case (EvSetRenderMaterial p m)
    with ok have p: "p < next_prim st" by (simp add: event_ok_def)
    note e = setRenderMaterial_effect [OF refl, of st p m]
    have "renderer_inv (setRenderMaterial st p m)"
      by (rule renderer_inv_keep [OF assms]) (use e p in auto)
    with ok EvSetRenderMaterial show ?thesis by (simp add: fst_step)
  next
    case (EvSetPrimitive p g)
    with ok have p: "p < next_prim st" by (simp add: event_ok_def)
    note e = setPrimitive_effect [OF refl, of st p g]
    have "renderer_inv (setPrimitive st p g)"
      by (rule renderer_inv_keep [OF assms]) (use e p in auto)
    with ok EvSetPrimitive show ?thesis by (simp add: fst_step)
  next
    case (EvRunTask k)
    obtain st1 c where r: "runTask st k = (st1, c)" by (cases "runTask st k")
    note e = runTask_effect [OF r]
    have "renderer_inv st1"
      by (rule renderer_inv_keep [OF assms]) (use e in auto)
    with ok EvRunTask r show ?thesis by (simp add: fst_step)
  next
    case (EvVideoPlaying r tx)
    have "renderer_inv (videoPlaying st r tx)"
      by (rule renderer_inv_keep [OF assms]) (simp_all add: videoPlaying_def)
    with ok EvVideoPlaying show ?thesis by (simp add: fst_step)
  next
    case (EvVideoState v b)
    have "renderer_inv (st\<lparr>video_playing := (video_playing st)(v := b)\<rparr>)"
      by (rule renderer_inv_keep [OF assms]) simp_all
    with ok EvVideoState show ?thesis by (simp add: fst_step)
  next
    case (EvWorldMatrix n m)
    have "renderer_inv (st\<lparr>node_worldMatrix := (node_worldMatrix st)(n := m)\<rparr>)"
      by (rule renderer_inv_keep [OF assms]) simp_all
    with ok EvWorldMatrix show ?thesis by (simp add: fst_step)
  next
    case (EvDrawViews views rootNode depthData)
    obtain st1 tr err where d: "drawViews K st views rootNode depthData = (st1, tr, err)"
      by (cases "drawViews K st views rootNode depthData")
    note e = drawViews_effect [OF d]
    have "renderer_inv st1"
      by (rule renderer_inv_keep [OF assms]) (use e in auto)
    with ok EvDrawViews d show ?thesis by (simp add: fst_step)
  qed
qed

lemma run_inv: "renderer_inv st \<Longrightarrow> renderer_inv (run K st evs)"
  by (induction evs arbitrary: st) (simp_all add: step_inv)

lemma step_buckets:
  assumes "\<forall>g mat. ev \<noteq> EvCreateRenderPrimitive g mat"
  shows "renderPrimitives (fst (step K st ev)) = renderPrimitives st"
proof (cases "event_ok st ev")
  case False
  then show ?thesis by (simp add: step_def)
next
  case ok: True
  show ?thesis
  proof (cases ev)
    case (EvCreateRenderBuffer target data usage)
    with ok show ?thesis
      by (simp add: fst_step createRenderBuffer_def Let_def split: buffer_data.splits)
  next
    case (EvResolveBuffer b n)
    with ok show ?thesis by (simp add: fst_step resolveBuffer_def Let_def)
  next
    case (EvCreateRenderPrimitive g mat)
    with assms show ?thesis by simp
  next
    case (EvAddInstance p n)
    with ok show ?thesis by (simp add: fst_step addInstance_def)
  next
    case (EvSetRenderMaterial p m)
    with ok setRenderMaterial_effect [OF refl, of st p m] show ?thesis by (simp add: fst_step)
  next
    case (EvSetPrimitive p g)
    with ok setPrimitive_effect [OF refl, of st p g] show ?thesis by (simp add: fst_step)
  next
    case (EvRunTask k)
    obtain st1 c where r: "runTask st k = (st1, c)" by (cases "runTask st k")
    with ok EvRunTask runTask_effect [OF r] show ?thesis by (simp add: fst_step)
  next
    case (EvVideoPlaying r tx)
    with ok show ?thesis by (simp add: fst_step videoPlaying_def)
  next
    case (EvVideoState v b)
    with ok show ?thesis by (simp add: fst_step)
  next
    case (EvWorldMatrix n m)
    with ok show ?thesis by (simp add: fst_step)
  next
    case (EvDrawViews views rootNode depthData)
    obtain st1 tr err where d: "drawViews K st views rootNode depthData = (st1, tr, err)"
      by (cases "drawViews K st views rootNode depthData")
    with ok EvDrawViews drawViews_effect [OF d] show ?thesis by (simp add: fst_step)
  qed
qed

section \<open>Opaque before transparent\<close>

lemma drawViews_order:
  assumes "drawViews K st views rootNode depthData = (st', tr, err)"
    and "distinct (all_prims st)"
    and "a < b" and "p \<in> set (bucket st a)" and "q \<in> set (bucket st b)"
    and "i < length tr" and "j < length tr"
    and "fst (tr ! i) = Some p" and "fst (tr ! j) = Some q"
  shows "i < j"
proof (cases rootNode)
  case None
  with assms(1,6) show ?thesis by (auto simp: drawViews_def)
next
  case (Some rootN)
  let ?st1 = "st\<lparr>frameId := Suc (frameId st)\<rparr>"
  from assms(1) Some obtain st2 c2 st3 c4 pre post where
    m: "Node_markActive ?st1 rootN (Suc (frameId st)) = (st2, c2)"
    and st3: "st3 = st2\<lparr>cameraPositions := cameraLoop (cameraPositions st2) views [0..<length views]\<rparr>"
    and d: "drawBuckets K st3 views depthData (renderPrimitives st3) = (st', c4, err)"
    and tr: "tr = map (Pair None) pre @ c4 @ map (Pair None) post"
    by (auto elim: drawViews_phases)
  have "static ?st1 st2"
    using Node_markActive_rel(1) [of "Suc (frameId st)" ?st1 rootN] m by (simp add: mark_rel_static)
  then have bs: "renderPrimitives st3 = renderPrimitives st" using st3 by (simp add: static_def)
  have inside: "length pre \<le> k \<and> k - length pre < length c4 \<and> c4 ! (k - length pre) = tr ! k"
    if "k < length tr" "fst (tr ! k) = Some r" for k r
  proof -
    have 1: "length pre \<le> k"
    proof (rule ccontr)
      assume "\<not> length pre \<le> k"
      then have "tr ! k = (None, pre ! k)" using tr by (simp add: nth_append)
      with that(2) show False by simp
    qed
    have 2: "k - length pre < length c4"
    proof (rule ccontr)
      assume n: "\<not> k - length pre < length c4"
      with 1 that(1) tr have "tr ! k = (None, post ! (k - length pre - length c4))"
        by (simp add: nth_append)
      with that(2) show False by simp
    qed
    from 1 2 tr show ?thesis by (simp add: nth_append)
  qed
  from assms(3,5) have b: "b < length (renderPrimitives st)"
    by (cases "b < length (renderPrimitives st)") (simp_all add: bucket_def)
  with assms(3) have a: "a < length (renderPrimitives st)" by simp
  note i = inside [OF assms(6,8)] and j = inside [OF assms(7,9)]
  have "i - length pre < j - length pre"
  proof (rule drawBuckets_order [OF d _ assms(3)])
    show "distinct (concat (map bucket_prims (renderPrimitives st3)))"
      using assms(2) bs by (simp add: all_prims_def)
    show "b < length (renderPrimitives st3)" using b bs by simp
    show "p \<in> set (bucket_prims (renderPrimitives st3 ! a))" using assms(4) a bs by (simp add: bucket_def)
    show "q \<in> set (bucket_prims (renderPrimitives st3 ! b))" using assms(5) b bs by (simp add: bucket_def)
    show "i - length pre < length c4" "j - length pre < length c4" using i j by simp_all
    show "fst (c4 ! (i - length pre)) = Some p" using i assms(8) by simp
    show "fst (c4 ! (j - length pre)) = Some q" using j assms(9) by simp
  qed
  with i j show ?thesis by simp
qed

lemma createRenderPrimitive_bucket:
  assumes "createRenderPrimitive K st g mat = (st1, c, Inr P)"
  shows "\<exists>m. rp_material (prims st1 P) = Some m
     \<and> (\<forall>k. bucket st1 k = (if k = rm_renderOrder (materials st1 m) then bucket st k @ [P]
                             else bucket st k))"
proof -
  from createRenderPrimitive_success [OF assms] obtain m where
    m: "rp_material (prims st1 P) = Some m"
    and b: "renderPrimitives st1 = bucket_push (renderPrimitives st) (rm_renderOrder (materials st1 m)) P"
    by blast
  have "bucket st1 k = (if k = rm_renderOrder (materials st1 m) then bucket st k @ [P] else bucket st k)" for k
    unfolding bucket_def b
    using nth_bucket_push [of k "renderPrimitives st" "rm_renderOrder (materials st1 m)" P]
    by simp
  with m show ?thesis by blast
qed

text \<open>
  Claim C1. Take a renderer at any point of its life: constructed, then put through any
  sequence of events (primitives created in any order, buffers resolving, frames drawn,
  ...). In every frame drawn by \<^verbatim>\<open>drawViews\<close>, every call made for a primitive of a bucket
  comes before every call made for a primitive of a bucket with a greater index; so,
  \<^verbatim>\<open>RENDER_ORDER.OPAQUE\<close> being below \<^verbatim>\<open>RENDER_ORDER.TRANSPARENT\<close>, every draw call for a
  primitive of the opaque bucket is issued before any draw call for a primitive of the
  transparent bucket. No primitive is in the buckets twice. \<^verbatim>\<open>createRenderPrimitive\<close>
  appends the new primitive, which was in no bucket, to the bucket of the render order of
  its render material and changes no other bucket, and no other event changes the
  buckets.
\<close>

theorem C1_opaque_before_transparent:
  assumes "Renderer K canvas_context gl mv msmv ud = Inr st0"
    and "st = run K st0 evs"
    and "drawViews K st views rootNode depthData = (st', tr, err)"
  shows "(\<forall>a b p q i j. a < b \<and> p \<in> set (bucket st a) \<and> q \<in> set (bucket st b)
            \<and> i < length tr \<and> j < length tr \<and> fst (tr ! i) = Some p \<and> fst (tr ! j) = Some q
            \<longrightarrow> i < j)
     \<and> (RENDER_ORDER_OPAQUE K < RENDER_ORDER_TRANSPARENT K \<longrightarrow>
          (\<forall>p q i j. p \<in> set (bucket st (RENDER_ORDER_OPAQUE K))
             \<and> q \<in> set (bucket st (RENDER_ORDER_TRANSPARENT K))
             \<and> i < length tr \<and> j < length tr
             \<and> fst (tr ! i) = Some p \<and> is_draw (snd (tr ! i))
             \<and> fst (tr ! j) = Some q \<and> is_draw (snd (tr ! j))
             \<longrightarrow> i < j))
     \<and> distinct (all_prims st)
     \<and> (\<forall>g mat st1 c P. createRenderPrimitive K st g mat = (st1, c, Inr P) \<longrightarrow>
          P \<notin> set (all_prims st)
          \<and> (\<exists>m. rp_material (prims st1 P) = Some m
               \<and> (\<forall>k. bucket st1 k = (if k = rm_renderOrder (materials st1 m)
                                      then bucket st k @ [P] else bucket st k))))
     \<and> (\<forall>ev. (\<forall>g mat. ev \<noteq> EvCreateRenderPrimitive g mat)
          \<longrightarrow> renderPrimitives (fst (step K st ev)) = renderPrimitives st)"
proof -
  have inv: "renderer_inv st"
    using renderer_inv_init [OF assms(1)] assms(2) by (simp add: run_inv)
  then have d: "distinct (all_prims st)" by (simp add: renderer_inv_def)
  have A: "\<forall>a b p q i j. a < b \<and> p \<in> set (bucket st a) \<and> q \<in> set (bucket st b)
            \<and> i < length tr \<and> j < length tr \<and> fst (tr ! i) = Some p \<and> fst (tr ! j) = Some q
            \<longrightarrow> i < j"
    using drawViews_order [OF assms(3) d] by blast
  then have B: "RENDER_ORDER_OPAQUE K < RENDER_ORDER_TRANSPARENT K \<longrightarrow>
          (\<forall>p q i j. p \<in> set (bucket st (RENDER_ORDER_OPAQUE K))
             \<and> q \<in> set (bucket st (RENDER_ORDER_TRANSPARENT K))
             \<and> i < length tr \<and> j < length tr
             \<and> fst (tr ! i) = Some p \<and> is_draw (snd (tr ! i))
             \<and> fst (tr ! j) = Some q \<and> is_draw (snd (tr ! j))
             \<longrightarrow> i < j)"
    by blast
  have D: "\<forall>g mat st1 c P. createRenderPrimitive K st g mat = (st1, c, Inr P) \<longrightarrow>
          P \<notin> set (all_prims st)
          \<and> (\<exists>m. rp_material (prims st1 P) = Some m
               \<and> (\<forall>k. bucket st1 k = (if k = rm_renderOrder (materials st1 m)
                                      then bucket st k @ [P] else bucket st k)))"
  proof (intro allI impI)
    fix g mat st1 c P
    assume c: "createRenderPrimitive K st g mat = (st1, c, Inr P)"
    from createRenderPrimitive_success [OF c] have "P = next_prim st" by blast
    then have "P \<notin> set (all_prims st)" using renderer_inv_lt [OF inv, of P] by auto
    with createRenderPrimitive_bucket [OF c]
    show "P \<notin> set (all_prims st)
          \<and> (\<exists>m. rp_material (prims st1 P) = Some m
               \<and> (\<forall>k. bucket st1 k = (if k = rm_renderOrder (materials st1 m)
                                      then bucket st k @ [P] else bucket st k)))"
      by blast
  qed
  have E: "\<forall>ev. (\<forall>g mat. ev \<noteq> EvCreateRenderPrimitive g mat)
          \<longrightarrow> renderPrimitives (fst (step K st ev)) = renderPrimitives st"
    using step_buckets by blast
  from A B d D E show ?thesis by blast
qed

section \<open>A primitive that waits for a buffer for ever\<close>

lemma starved_keep:
  assumes "starved P B st"
    and "next_prim st \<le> next_prim st'" and "next_buffer st \<le> next_buffer st'"
    and "buffers st' B = buffers st B"
    and "buffer_refs (prims st' P) = buffer_refs (prims st P)"
    and "rp_complete (prims st' P) = rp_complete (prims st P)"
    and "rp_activeFrameId (prims st' P) = rp_activeFrameId (prims st P)"
    and "\<forall>bs. CompletePrimitive P bs \<in> set (tasks st')
           \<longrightarrow> CompletePrimitive P bs \<in> set (tasks st) \<or> B \<in> set bs"
  shows "starved P B st'"
proof -
  from assms(1) have a: "P < next_prim st" "B < next_buffer st"
    "buf_buffer (buffers st B) = None" "\<not> buf_resolved (buffers st B)"
    "B \<in> buffer_refs (prims st P)" "\<not> rp_complete (prims st P)"
    "rp_activeFrameId (prims st P) = 0"
    and t: "\<forall>bs. CompletePrimitive P bs \<in> set (tasks st) \<longrightarrow> B \<in> set bs"
    by (simp_all add: starved_def)
  have "P < next_prim st'" "B < next_buffer st'" using a(1,2) assms(2,3) by simp_all
  moreover have "\<forall>bs. CompletePrimitive P bs \<in> set (tasks st') \<longrightarrow> B \<in> set bs"
    using assms(8) t by blast
  ultimately show ?thesis
    unfolding starved_def using a assms(4-7) by simp
qed

lemma starved_pending:
  assumes "starved P B st" and "buffers st' = buffers st"
    and "buffer_refs rp = buffer_refs (prims st P) \<or> B \<in> buffer_refs rp"
  shows "B \<in> set (pendingBuffers st' rp)"
proof -
  from assms(1) have "buf_buffer (buffers st B) = None" "B \<in> buffer_refs (prims st P)"
    by (simp_all add: starved_def)
  with assms(2,3) show ?thesis by (intro pendingBuffers_mem) auto
qed

lemma step_starved:
  assumes s: "starved P B st" and inv: "renderer_inv st" and k: "keeps_pending P B ev"
  shows "starved P B (fst (step K st ev))"
proof (cases "event_ok st ev")
  case False
  with s show ?thesis by (simp add: step_def)
next
  case ok: True
  from s have P: "P < next_prim st" and B: "B < next_buffer st"
    and nr: "\<not> buf_resolved (buffers st B)"
    and t: "\<forall>bs. CompletePrimitive P bs \<in> set (tasks st) \<longrightarrow> B \<in> set bs"
    by (simp_all add: starved_def)
  show ?thesis
  proof (cases ev)
    case (EvCreateRenderBuffer target data usage)
    have "starved P B (fst (createRenderBuffer st target data usage))"
      by (rule starved_keep [OF s])
         (use B in \<open>simp_all add: createRenderBuffer_def Let_def split: buffer_data.splits\<close>)
    with ok EvCreateRenderBuffer show ?thesis by (simp add: fst_step)
  next
    case (EvResolveBuffer b n)
    with k have "b \<noteq> B" by simp
    then have "starved P B (fst (resolveBuffer st b n))"
      by (intro starved_keep [OF s]) (simp_all add: resolveBuffer_def Let_def)
    with ok EvResolveBuffer show ?thesis by (simp add: fst_step)
  next
    case (EvCreateRenderPrimitive g mat)
    obtain st1 c r where cr: "createRenderPrimitive K st g mat = (st1, c, r)"
      by (cases "createRenderPrimitive K st g mat")
    have "starved P B st1"
    proof (cases r)
      case (Inl e)
      note f = createRenderPrimitive_failure [OF cr [unfolded Inl]]
      from f P have "prims st1 P = prims st P" by auto
      with f show ?thesis by (intro starved_keep [OF s]) auto
    next
      case (Inr Q)
      note f = createRenderPrimitive_success [OF cr [unfolded Inr]]
      from f P have Q: "Q \<noteq> P" and "prims st1 P = prims st P" by auto
      with f show ?thesis by (intro starved_keep [OF s]) auto
    qed
    with ok EvCreateRenderPrimitive cr show ?thesis by (simp add: fst_step)
  next
    case (EvAddInstance p n)
    have "starved P B (addInstance st p n)"
      by (rule starved_keep [OF s]) (simp_all add: addInstance_def buffer_refs_def)
    with ok EvAddInstance show ?thesis by (simp add: fst_step)
  next
    case (EvSetRenderMaterial p m)
    note e = setRenderMaterial_effect [OF refl, of st p m]
    have "starved P B (setRenderMaterial st p m)"
    proof (cases "p = P")
      case True
      have pend: "B \<in> set (pendingBuffers st (prims (setRenderMaterial st P m) P))"
        by (rule starved_pending [OF s refl]) (use e True in simp)
      from s have "\<not> rp_complete (prims st P)" by (simp add: starved_def)
      with e True pend show ?thesis by (intro starved_keep [OF s]) auto
    next
      case False
      with e have "prims (setRenderMaterial st p m) P = prims st P" by simp
      with e False show ?thesis by (intro starved_keep [OF s]) auto
    qed
    with ok EvSetRenderMaterial show ?thesis by (simp add: fst_step)
  next
    case (EvSetPrimitive p g)
    note e = setPrimitive_effect [OF refl, of st p g]
    have "starved P B (setPrimitive st p g)"
    proof (cases "p = P")
      case True
      with k EvSetPrimitive have g: "B \<in> geometry_refs g" by simp
      have pend: "B \<in> set (pendingBuffers st (prims (setPrimitive st P g) P))"
        by (rule starved_pending [OF s refl]) (use e True g in simp)
      from s have c: "\<not> rp_complete (prims st P)" "B \<in> buffer_refs (prims st P)"
        by (simp_all add: starved_def)
      have "starved P B (setPrimitive st P g)"
        unfolding starved_def
        using s e True g pend c t by (auto simp: starved_def)
      with True show ?thesis by simp
    next
      case False
      with e have "prims (setPrimitive st p g) P = prims st P" by simp
      with e False show ?thesis by (intro starved_keep [OF s]) auto
    qed
    with ok EvSetPrimitive show ?thesis by (simp add: fst_step)
  next
    case (EvRunTask j)
    obtain st1 c where r: "runTask st j = (st1, c)" by (cases "runTask st j")
    note e = runTask_effect [OF r]
    have same: "prims st1 P = prims st P"
    proof (rule ccontr)
      assume "prims st1 P \<noteq> prims st P"
      with e obtain bs where "CompletePrimitive P bs \<in> set (tasks st)"
        "\<forall>b \<in> set bs. buf_resolved (buffers st b)" by blast
      with t nr show False by blast
    qed
    have "starved P B st1"
      by (rule starved_keep [OF s]) (use e same in auto)
    with ok EvRunTask r show ?thesis by (simp add: fst_step)
  next
    case (EvVideoPlaying r tx)
    have "starved P B (videoPlaying st r tx)"
      by (rule starved_keep [OF s]) (simp_all add: videoPlaying_def)
    with ok EvVideoPlaying show ?thesis by (simp add: fst_step)
  next
    case (EvVideoState v b)
    have "starved P B (st\<lparr>video_playing := (video_playing st)(v := b)\<rparr>)"
      by (rule starved_keep [OF s]) simp_all
    with ok EvVideoState show ?thesis by (simp add: fst_step)
  next
    case (EvWorldMatrix n m)
    have "starved P B (st\<lparr>node_worldMatrix := (node_worldMatrix st)(n := m)\<rparr>)"
      by (rule starved_keep [OF s]) simp_all
    with ok EvWorldMatrix show ?thesis by (simp add: fst_step)
  next
    case (EvDrawViews views rootNode depthData)
    obtain st1 tr err where d: "drawViews K st views rootNode depthData = (st1, tr, err)"
      by (cases "drawViews K st views rootNode depthData")
    note e = drawViews_effect [OF d]
    from s have c: "\<not> rp_complete (prims st P)" by (simp add: starved_def)
    have "starved P B st1"
      by (rule starved_keep [OF s]) (use e c in \<open>auto simp: buffer_refs_def\<close>)
    with ok EvDrawViews d show ?thesis by (simp add: fst_step)
  qed
qed

lemma run_starved:
  "starved P B st \<Longrightarrow> renderer_inv st \<Longrightarrow> list_all (keeps_pending P B) evs
     \<Longrightarrow> starved P B (run K st evs)"
  by (induction evs arbitrary: st) (simp_all add: step_starved step_inv)

lemma create_starved:
  assumes "renderer_inv st" and "createRenderPrimitive K st g mat = (st1, c, Inr P)"
    and "B \<in> geometry_refs g" and "B < next_buffer st"
    and "buf_buffer (buffers st B) = None" and "\<not> buf_resolved (buffers st B)"
  shows "starved P B st1"
proof -
  note f = createRenderPrimitive_success [OF assms(2)]
  from f have P: "P = next_prim st" by blast
  have t: "B \<in> set bs" if "CompletePrimitive P bs \<in> set (tasks st1)" for bs
  proof -
    from that f have "CompletePrimitive P bs \<in> set (tasks st) \<or> bs = pendingBuffers st (prims st1 P)"
      by blast
    then show ?thesis
    proof
      assume "CompletePrimitive P bs \<in> set (tasks st)"
      with renderer_inv_task [OF assms(1)] P show ?thesis by blast
    next
      assume "bs = pendingBuffers st (prims st1 P)"
      moreover have "buffer_refs (prims st1 P) = geometry_refs g" using f by blast
      then have "B \<in> buffer_refs (prims st1 P)" using assms(3) by simp
      ultimately show ?thesis using assms(5) by (simp add: pendingBuffers_mem)
    qed
  qed
  from f have "P < next_prim st1" "next_buffer st1 = next_buffer st" "buffers st1 = buffers st"
    "buffer_refs (prims st1 P) = geometry_refs g" "\<not> rp_complete (prims st1 P)"
    "rp_activeFrameId (prims st1 P) = 0" by auto
  then show ?thesis
    unfolding starved_def using assms(3-6) t by simp
qed

text \<open>A frame makes no call and raises no exception for a primitive that is not active
  after the marking.\<close>

lemma drawViews_starved:
  assumes "drawViews K st views rootNode depthData = (st', tr, err)"
    and "\<not> rp_complete (prims st P)" and "rp_activeFrameId (prims st P) = 0"
  shows "(\<forall>c. (Some P, c) \<notin> set tr) \<and> (\<forall>e. err \<noteq> Some (P, e))
         \<and> rp_activeFrameId (prims st' P) = 0"
proof (cases rootNode)
  case None
  with assms show ?thesis by (auto simp: drawViews_def)
next
  case (Some rootN)
  let ?st1 = "st\<lparr>frameId := Suc (frameId st)\<rparr>"
  from assms(1) Some obtain st2 c2 st3 c4 pre post where
    m: "Node_markActive ?st1 rootN (Suc (frameId st)) = (st2, c2)"
    and st3: "st3 = st2\<lparr>cameraPositions := cameraLoop (cameraPositions st2) views [0..<length views]\<rparr>"
    and d: "drawBuckets K st3 views depthData (renderPrimitives st3) = (st', c4, err)"
    and tr: "tr = map (Pair None) pre @ c4 @ map (Pair None) post"
    by (auto elim: drawViews_phases)
  have mr: "mark_rel (Suc (frameId st)) ?st1 st2"
    using Node_markActive_rel(1) [of "Suc (frameId st)" ?st1 rootN] m by simp
  have "rp_activeFrameId (prims st2 P) = rp_activeFrameId (prims ?st1 P)"
    using mark_rel_prim(6) [OF mr, of P] assms(2) by simp
  then have a3: "rp_activeFrameId (prims st3 P) = 0" using st3 assms(3) by simp
  have "frameId st2 = Suc (frameId st)" using mark_rel_static [OF mr] by (simp add: static_def)
  then have "frameId st3 = Suc (frameId st)" using st3 by simp
  with a3 have na: "\<not> active st3 P" by (simp add: active_def)
  note tg = drawBuckets_tags [OF d]
  have 1: "(Some P, c) \<notin> set tr" for c
  proof
    assume "(Some P, c) \<in> set tr"
    with tr have "(Some P, c) \<in> set c4" by auto
    with tg na show False by fastforce
  qed
  have 2: "err \<noteq> Some (P, e)" for e using tg na by blast
  have dr: "draw_rel st3 st'"
    using drawBuckets_rel [of st3 K views depthData "renderPrimitives st3"] d by simp
  have 3: "rp_activeFrameId (prims st' P) = 0" using draw_rel_prim(1) [OF dr, of P] a3 by simp
  from 1 2 3 show ?thesis by blast
qed

text \<open>
  What does hold of a primitive that waits for ever. Let a render primitive be created,
  at any point of the life of a renderer, with a geometry that refers to a buffer whose
  population is pending, and let that buffer never resolve while the primitive keeps
  referring to it. Then, whatever happens afterwards (other buffers resolving, promise
  continuations running, primitives created, materials set, any number of frames drawn),
  the primitive is never complete and never marked active: \<^verbatim>\<open>markActive\<close> does nothing
  for it. Every frame passes it over: no call is made for it, no draw call in particular,
  and no exception is raised for it.
\<close>

lemma starved_primitive_never_drawn:
  assumes "Renderer K canvas_context gl mv msmv ud = Inr st0"
    and "st1 = run K st0 evs1"
    and "createRenderPrimitive K st1 g mat = (st2, c, Inr P)"
    and "B \<in> geometry_refs g" and "B < next_buffer st1"
    and "buf_buffer (buffers st1 B) = None" and "\<not> buf_resolved (buffers st1 B)"
    and "list_all (keeps_pending P B) evs2"
    and "st = run K st2 evs2"
  shows "\<not> rp_complete (prims st P) \<and> rp_activeFrameId (prims st P) = 0
     \<and> (\<forall>f. RenderPrimitive_markActive st P f = (st, []))
     \<and> (\<forall>views rootNode depthData st' tr err.
          drawViews K st views rootNode depthData = (st', tr, err) \<longrightarrow>
            (\<forall>c. (Some P, c) \<notin> set tr) \<and> (\<forall>e. err \<noteq> Some (P, e))
            \<and> rp_activeFrameId (prims st' P) = 0)"
proof -
  have inv1: "renderer_inv st1"
    using renderer_inv_init [OF assms(1)] assms(2) by (simp add: run_inv)
  have s2: "starved P B st2"
    by (rule create_starved [OF inv1 assms(3-7)])
  have inv2: "renderer_inv st2"
    using createRenderPrimitive_inv [OF inv1, of K g mat] assms(3) by simp
  have s: "starved P B st" unfolding assms(9) using s2 inv2 assms(8) by (rule run_starved)
  then have a: "\<not> rp_complete (prims st P)" "rp_activeFrameId (prims st P) = 0"
    by (simp_all add: starved_def)
  have b: "RenderPrimitive_markActive st P f = (st, [])" for f
    using a by (simp add: RenderPrimitive_markActive_def)
  have c: "\<forall>views rootNode depthData st' tr err.
          drawViews K st views rootNode depthData = (st', tr, err) \<longrightarrow>
            (\<forall>c. (Some P, c) \<notin> set tr) \<and> (\<forall>e. err \<noteq> Some (P, e))
            \<and> rp_activeFrameId (prims st' P) = 0"
    using drawViews_starved a by blast
  from a b c show ?thesis by blast
qed

section \<open>The two scenes, evaluated\<close>

lemma Renderer_r0: "Renderer K0 None (Some gl0) True False False = Inr r0"
  by (simp add: r0_def Renderer_def)

lemma tr0_draws:
  "tr0 ! 30 = (Some 1, DrawArrays 4 0 3) \<and> tr0 ! 61 = (Some 0, DrawArrays 4 0 3) \<and> length tr0 = 63"
  by code_simp

lemma s0_buckets: "bucket s0 0 = [1] \<and> bucket s0 2 = [0]"
  by code_simp

lemma K0_orders: "RENDER_ORDER_OPAQUE K0 = 0 \<and> RENDER_ORDER_TRANSPARENT K0 = 2"
  by (simp add: K0_def)

theorem C1_opaque_before_transparent_witness:
  "Renderer K0 None (Some gl0) True False False = Inr r0
   \<and> RENDER_ORDER_OPAQUE K0 < RENDER_ORDER_TRANSPARENT K0
   \<and> 1 \<in> set (bucket s0 (RENDER_ORDER_OPAQUE K0))
   \<and> 0 \<in> set (bucket s0 (RENDER_ORDER_TRANSPARENT K0))
   \<and> tr0 ! 30 = (Some 1, DrawArrays 4 0 3) \<and> tr0 ! 61 = (Some 0, DrawArrays 4 0 3)
   \<and> (30::nat) < 61 \<and> distinct (all_prims s0)"
proof -
  obtain st' err where d: "drawViews K0 s0 [view0, view1] (Some scene0) None = (st', tr0, err)"
    by (cases "drawViews K0 s0 [view0, view1] (Some scene0) None") (simp add: tr0_def)
  note c = C1_opaque_before_transparent [OF Renderer_r0 s0_def d]
  from c have "distinct (all_prims s0)" by blast
  then show ?thesis
    using Renderer_r0 tr0_draws s0_buckets K0_orders by simp
qed

lemma s_async_created:
  "snd (snd (createRenderPrimitive K0 s_async geom0 mat_transparent)) = Inr 0"
  by code_simp

lemma s_async_pending:
  "0 \<in> geometry_refs geom0 \<and> 0 < next_buffer s_async \<and> buf_buffer (buffers s_async 0) = None
   \<and> \<not> buf_resolved (buffers s_async 0)"
  by code_simp

lemma evs_later_keep: "list_all (keeps_pending 0 0) evs_later"
  by code_simp

lemma s_later_frames: "frameId s_later = 1 \<and> length tr_later = 21"
  by code_simp

lemma starved_primitive_never_drawn_example:
  "Renderer K0 None (Some gl0) True False False = Inr r0
   \<and> 0 \<in> geometry_refs geom0 \<and> buf_buffer (buffers s_async 0) = None
   \<and> \<not> buf_resolved (buffers s_async 0)
   \<and> list_all (keeps_pending 0 0) evs_later
   \<and> frameId s_later = 1 \<and> length tr_later = 21
   \<and> \<not> rp_complete (prims s_later 0) \<and> (\<forall>c. (Some 0, c) \<notin> set tr_later)"
proof -
  obtain c where cr: "createRenderPrimitive K0 s_async geom0 mat_transparent = (s_created, c, Inr 0)"
    using s_async_created
    by (cases "createRenderPrimitive K0 s_async geom0 mat_transparent") (simp add: s_created_def)
  obtain st' err where d: "drawViews K0 s_later [view0, view1] (Some scene0) None = (st', tr_later, err)"
    by (cases "drawViews K0 s_later [view0, view1] (Some scene0) None") (simp add: tr_later_def)
  from s_async_pending have p: "0 \<in> geometry_refs geom0" "0 < next_buffer s_async"
    "buf_buffer (buffers s_async 0) = None" "\<not> buf_resolved (buffers s_async 0)" by blast+
  note t = starved_primitive_never_drawn
    [OF Renderer_r0 s_async_def cr p evs_later_keep s_later_def]
  from t d have "\<not> rp_complete (prims s_later 0)" "\<forall>c. (Some 0, c) \<notin> set tr_later" by blast+
  then show ?thesis
    using Renderer_r0 p evs_later_keep s_later_frames by simp
qed

text \<open>
  Claim C6. A render primitive that refers to a buffer whose population never resolves
  is not always left incomplete and undrawn. \<^verbatim>\<open>setPrimitive\<close> resets \<^verbatim>\<open>_promise\<close> and
  \<^verbatim>\<open>_complete\<close> and waits for the buffers of the new geometry, but the continuation
  queued by the earlier \<^verbatim>\<open>waitForComplete\<close> is not cancelled and still sets
  \<^verbatim>\<open>_complete\<close>. Here a primitive is created on a buffer that is filled and is given,
  before the continuation of its creation runs, a geometry on a buffer whose promise never
  resolves. When that continuation has run the primitive refers to the pending buffer
  only, a completion that awaits this buffer is still queued, and yet the primitive is
  complete: the next frame marks it active and issues a draw call for it, with no
  exception.
\<close>

theorem C6_stale_completion_draws:
  "map fst (rp_attributeBuffers (prims s_stale 0)) = [1]
   \<and> rp_indexBuffer (prims s_stale 0) = None
   \<and> buf_buffer (buffers s_stale 1) = None \<and> \<not> buf_resolved (buffers s_stale 1)
   \<and> tasks s_stale = [CompletePrimitive 0 [1]]
   \<and> rp_complete (prims s_stale 0)
   \<and> rp_activeFrameId (prims (fst (drawViews K0 s_stale [view0] (Some scene_stale) None)) 0)
       = frameId (fst (drawViews K0 s_stale [view0] (Some scene_stale) None))
   \<and> filter (\<lambda>tc. is_draw (snd tc)) tr_stale = [(Some 0, DrawArrays 4 0 3)]
   \<and> snd (snd (drawViews K0 s_stale [view0] (Some scene_stale) None)) = None"
  by code_simp

section \<open>Two views with hardware multiview\<close>

lemma list_all_concat_map:
  "(\<And>x. x \<in> set xs \<Longrightarrow> list_all P (f x)) \<Longrightarrow> list_all P (concat (map f xs))"
  by (induction xs) simp_all

lemma quiet_nextUse_callback: "list_all quiet (nextUse_callback program ns i)"
  by (induction ns arbitrary: i) (simp_all add: quiet_def split: option.splits)

lemma quiet_program_use: "list_all quiet (snd (program_use st prog))"
  by (simp add: program_use_def Let_def quiet_def list_all_concat_map quiet_nextUse_callback)

lemma quiet_bindProgram: "list_all quiet (snd (bindProgram st views program prog))"
proof -
  obtain st1 c1 where u: "program_use st prog = (st1, c1)" by (cases "program_use st prog")
  have "list_all quiet c1" using quiet_program_use [of st prog] u by simp
  then show ?thesis
    using u by (simp add: bindProgram_def quiet_def uniform_ref_def split: option.splits)
qed

lemma quiet_setCap: "list_all quiet (setCap glEnum cap prevState state)"
  by (simp add: setCap_def Let_def quiet_def)

lemma quiet_bindCaps: "list_all quiet (snd (bindCaps K st state prevState))"
  by (simp add: bindCaps_def Let_def quiet_def quiet_setCap)

lemma quiet_bindMaterialState: "list_all quiet (snd (bindMaterialState K st m prevMaterial))"
proof -
  let ?state = "rm_state (materials st m)"
  let ?prev = "case prevMaterial of Some pm \<Rightarrow> rm_state (materials st pm) | None \<Rightarrow> NOT ?state"
  obtain st1 c1 where b: "bindCaps K st ?state ?prev = (st1, c1)"
    by (cases "bindCaps K st ?state ?prev")
  have "list_all quiet c1" using quiet_bindCaps [of K st ?state ?prev] b by simp
  then show ?thesis
    using b by (simp add: bindMaterialState_def Let_def quiet_def)
qed

lemma quiet_bind_samplers: "list_all quiet (fst (bind_samplers st ss))"
proof (induction ss)
  case Nil
  show ?case by simp
next
  case (Cons s ss)
  obtain n r i where s: "s = (n, r, i)" by (cases s)
  obtain cs e where b: "bind_samplers st ss = (cs, e)" by (cases "bind_samplers st ss")
  with Cons.IH have "list_all quiet cs" by simp
  with s b show ?case unfolding quiet_def by (cases r) (simp_all add: Let_def)
qed

lemma quiet_bind_uniform: "list_all quiet (bind_uniform u)"
  by (simp add: bind_uniform_def quiet_def split: prod.splits)

lemma quiet_bind_tail:
  "list_all quiet (fst (snd (case bind_samplers s ss of
          (c1, Some e) \<Rightarrow> (s1, c1, Some e)
        | (c1, None) \<Rightarrow> (s1, c1 @ concat (map bind_uniform us), None))))"
proof -
  obtain c1 e where b: "bind_samplers s ss = (c1, e)" by (cases "bind_samplers s ss")
  have q1: "list_all quiet c1" using quiet_bind_samplers [of s ss] b by simp
  have q2: "list_all quiet (concat (map bind_uniform us))"
    by (rule list_all_concat_map) (rule quiet_bind_uniform)
  from b q1 q2 show ?thesis by (cases e) simp_all
qed

lemma quiet_RenderMaterial_bind: "list_all quiet (fst (snd (RenderMaterial_bind st m)))"
  unfolding RenderMaterial_bind_def Let_def by (rule quiet_bind_tail)

lemma quiet_bindMaterial: "list_all quiet (fst (snd (bindMaterial K st material m)))"
proof -
  obtain st1 c1 where a: "bindMaterialState K st m material = (st1, c1)"
    by (cases "bindMaterialState K st m material")
  obtain st2 c2 e where b: "RenderMaterial_bind st1 m = (st2, c2, e)"
    by (cases "RenderMaterial_bind st1 m")
  have "list_all quiet c1" using quiet_bindMaterialState [of K st m material] a by simp
  moreover have "list_all quiet c2" using quiet_RenderMaterial_bind [of st1 m] b by simp
  ultimately show ?thesis using a b by (simp add: bindMaterial_def)
qed

lemma quiet_bindPrimitive: "list_all quiet (bindPrimitive st p attribMask)"
  by (auto simp: bindPrimitive_def Let_def quiet_def list_all_iff split: option.splits)

lemma quiet_bindVertices: "list_all quiet (fst (snd (bindVertices st p attribMask)))"
  by (simp add: bindVertices_def Let_def quiet_def quiet_bindPrimitive split: option.splits)

lemma quiet_depthUploads: "list_all quiet (fst (depthUploads st views depthData prog material))"
  by (simp add: depthUploads_def Let_def quiet_def uniform_ref_def split: option.splits)

lemma filter_viewUploads:
  assumes "multiview st"
  shows "filter (\<lambda>c. \<not> quiet c) (fst (viewUploads st views depthData prog material 0))
         = multiview_uploads st views prog"
proof -
  let ?dd = "case depthData of Some dd \<Rightarrow> dd | None \<Rightarrow> []"
  obtain c4 e where d: "depthUploads st views ?dd prog material = (c4, e)"
    by (cases "depthUploads st views ?dd prog material")
  have "list_all quiet c4" using quiet_depthUploads [of st views ?dd prog material] d by simp
  then have "filter (\<lambda>c. \<not> quiet c) c4 = []" by (rule filter_quiet)
  then show ?thesis
    using d assms
    by (simp add: viewUploads_def Let_def multiview_uploads_def quiet_def uniform_ref_def
             split: option.splits)
qed

lemma filter_drawInstance:
  "filter (\<lambda>c. \<not> quiet c) (drawInstance st prog p inst)
   = (if node_activeFrameId st inst = frameId st then [draw_call (prims st p)] else [])"
  by (simp add: drawInstance_def Let_def draw_call_def quiet_def uniform_ref_def split: option.splits)

lemma filter_drawInstances:
  "filter (\<lambda>c. \<not> quiet c) (concat (map (drawInstance st prog p) ns))
   = replicate (length (filter (\<lambda>n. node_activeFrameId st n = frameId st) ns)) (draw_call (prims st p))"
  by (induction ns) (simp_all add: filter_drawInstance)

lemma viewLoop_multiview:
  assumes "multiview st" and "length views = 2"
    and "viewLoop st views depthData prog m p [0..<length views] = (c, e)"
  shows "\<exists>rest. multiview_uploads st views prog
                 @ replicate (length (active_instances st p)) (draw_call (prims st p))
               = filter (\<lambda>c. \<not> quiet c) c @ rest
             \<and> (e = None \<longrightarrow> rest = [])"
proof -
  have u: "[0..<length views] = [0, Suc 0]" using assms(2) by (simp add: numeral_2_eq_2)
  obtain c1 e1 where v: "viewUploads st views depthData prog m 0 = (c1, e1)"
    by (cases "viewUploads st views depthData prog m 0")
  have f: "filter (\<lambda>c. \<not> quiet c) c1 = multiview_uploads st views prog"
    using filter_viewUploads [OF assms(1), of views depthData prog m] v by simp
  show ?thesis
  proof (cases e1)
    case (Some x)
    with assms v have "c = c1" "e \<noteq> None" unfolding u by auto
    with f show ?thesis by auto
  next
    case None
    with assms v have c: "c = c1 @ concat (map (drawInstance st prog p) (rp_instances (prims st p)))"
      and "e = None"
      unfolding u by (simp_all add: Let_def)
    then show ?thesis
      using f by (simp add: filter_drawInstances active_instances_def)
  qed
qed

lemma multiview_calls_rel:
  assumes "draw_rel st st1"
  shows "multiview_calls st1 views p = multiview_calls st views p"
proof -
  from assms have s: "static st st1" and n: "node_activeFrameId st1 = node_activeFrameId st"
    by (simp_all add: draw_rel_def)
  from s have f: "frameId st1 = frameId st"
    and u: "\<And>g. prog_uniform (programs st1 g) = prog_uniform (programs st g)"
    and r: "\<And>m. rm_program (materials st1 m) = rm_program (materials st m)"
    by (simp_all add: static_def)
  have a: "active_instances st1 p = active_instances st p"
    by (simp add: active_instances_def n f draw_rel_prim(2) [OF assms])
  have b: "multiview_uploads st1 views g = multiview_uploads st views g" for g
    by (simp add: multiview_uploads_def uniform_ref_def u)
  show ?thesis
    by (simp add: multiview_calls_def draw_rel_active [OF assms] a b r
          draw_rel_prim(3) [OF assms] draw_rel_prim(7) [OF assms])
qed

lemma drawPrimitive_multiview:
  assumes "multiview st" and "length views = 2" and "active st p"
    and "drawPrimitive K st views depthData vars p = (st1, vars1, c, e)"
  shows "\<exists>rest. multiview_calls st1 views p = map (Pair (Some p)) (filter (\<lambda>c. \<not> quiet c) c) @ rest
             \<and> (e = None \<longrightarrow> rest = [])"
proof -
  obtain program material attribMask where vars: "vars = (program, material, attribMask)"
    by (cases vars)
  show ?thesis
  proof (cases "rp_material (prims st p)")
    case None
    with assms(4) vars have "c = []" "e \<noteq> None" by (auto simp: drawPrimitive_def)
    then show ?thesis by auto
  next
    case (Some m)
    define prog where "prog = rm_program (materials st m)"
    obtain s1 c1 where a: "bindProgram st views program prog = (s1, c1)"
      by (cases "bindProgram st views program prog")
    obtain s2 c2 e2 where b: "bindMaterial K s1 material m = (s2, c2, e2)"
      by (cases "bindMaterial K s1 material m")
    have q1: "filter (\<lambda>c. \<not> quiet c) c1 = []"
      using quiet_bindProgram [of st views program prog] a by (simp add: filter_quiet)
    have q2: "filter (\<lambda>c. \<not> quiet c) c2 = []"
      using quiet_bindMaterial [of K s1 material m] b by (simp add: filter_quiet)
    show ?thesis
    proof (cases e2)
      case (Some x)
      with assms(4) vars \<open>rp_material (prims st p) = Some m\<close> a b
      have "c = c1 @ c2" "e \<noteq> None" by (auto simp: drawPrimitive_def Let_def prog_def)
      with q1 q2 show ?thesis by auto
    next
      case None
      obtain s3 c3 am where v: "bindVertices s2 p attribMask = (s3, c3, am)"
        by (cases "bindVertices s2 p attribMask")
      obtain c4 e4 where l: "viewLoop s3 views depthData prog m p [0..<length views] = (c4, e4)"
        by (cases "viewLoop s3 views depthData prog m p [0..<length views]")
      from assms(4) vars Some a b v l None
      have r: "st1 = s3" "c = c1 @ c2 @ c3 @ c4" "e = e4"
        by (auto simp: drawPrimitive_def Let_def prog_def)
      have dr: "draw_rel st st1"
        using drawPrimitive_rel [of st K views depthData vars p] assms(4) by simp
      then have s: "static st st1" by (rule draw_rel_static)
      then have mv: "multiview s3" using assms(1) r(1) by (simp add: static_def)
      have q3: "filter (\<lambda>c. \<not> quiet c) c3 = []"
        using quiet_bindVertices [of s2 p attribMask] v by (simp add: filter_quiet)
      from viewLoop_multiview [OF mv assms(2) l] obtain rest where
        q4: "multiview_uploads s3 views prog
               @ replicate (length (active_instances s3 p)) (draw_call (prims s3 p))
             = filter (\<lambda>c. \<not> quiet c) c4 @ rest"
        and q5: "e4 = None \<longrightarrow> rest = []" by blast
      have act: "active st1 p" using draw_rel_active [OF dr] assms(3) by simp
      have m1: "rp_material (prims st1 p) = Some m" using draw_rel_prim(3) [OF dr] Some by simp
      have p1: "rm_program (materials st1 m) = prog" using s by (simp add: static_def prog_def)
      have "multiview_calls st1 views p
            = map (Pair (Some p)) (filter (\<lambda>c. \<not> quiet c) c4) @ map (Pair (Some p)) rest"
        using q4 act m1 p1 r(1) by (simp add: multiview_calls_def del: map_append add: map_append [symmetric])
      then have "multiview_calls st1 views p
            = map (Pair (Some p)) (filter (\<lambda>c. \<not> quiet c) c) @ map (Pair (Some p)) rest"
        unfolding r(2) using q1 q2 q3 by simp
      with q5 r(3) show ?thesis by auto
    qed
  qed
qed

lemma drawPrimitives_multiview:
  assumes "multiview st" and "length views = 2"
    and "drawPrimitives K st views depthData vars ps = (st', tr, err)"
  shows "\<exists>rest. concat (map (multiview_calls st' views) ps)
                 = filter (\<lambda>tc. \<not> quiet (snd tc)) tr @ rest
             \<and> (err = None \<longrightarrow> rest = [])"
  using assms
proof (induction ps arbitrary: st vars tr)
  case Nil
  then show ?case by simp
next
  case (Cons p ps)
  have dr: "draw_rel st st'"
    using drawPrimitives_rel [of st K views depthData vars "p # ps"] Cons.prems(3) by simp
  show ?case
  proof (cases "rp_activeFrameId (prims st p) \<noteq> frameId st")
    case True
    with Cons.prems have "drawPrimitives K st views depthData vars ps = (st', tr, err)" by simp
    from Cons.IH [OF Cons.prems(1,2) this] obtain rest where
      "concat (map (multiview_calls st' views) ps) = filter (\<lambda>tc. \<not> quiet (snd tc)) tr @ rest"
      "err = None \<longrightarrow> rest = []" by blast
    moreover have "\<not> active st' p" using True draw_rel_active [OF dr] by (simp add: active_def)
    then have "multiview_calls st' views p = []" by (simp add: multiview_calls_def)
    ultimately show ?thesis by simp
  next
    case False
    then have act: "active st p" by (simp add: active_def)
    obtain st1 vars1 c1 e1 where a: "drawPrimitive K st views depthData vars p = (st1, vars1, c1, e1)"
      by (cases "drawPrimitive K st views depthData vars p")
    from drawPrimitive_multiview [OF Cons.prems(1,2) act a] obtain rest1 where
      s1: "multiview_calls st1 views p = map (Pair (Some p)) (filter (\<lambda>c. \<not> quiet c) c1) @ rest1"
      and s2: "e1 = None \<longrightarrow> rest1 = []" by blast
    show ?thesis
    proof (cases e1)
      case (Some x)
      with False a Cons.prems(3) have t: "st' = st1" "tr = map (Pair (Some p)) c1" "err \<noteq> None"
        by auto
      have "concat (map (multiview_calls st' views) (p # ps))
            = filter (\<lambda>tc. \<not> quiet (snd tc)) tr
              @ (rest1 @ concat (map (multiview_calls st' views) ps))"
        unfolding t(2) using s1 t(1) by (simp add: filter_tagged)
      with t(3) show ?thesis by blast
    next
      case None
      obtain st2 c2 e2 where b: "drawPrimitives K st1 views depthData vars1 ps = (st2, c2, e2)"
        by (cases "drawPrimitives K st1 views depthData vars1 ps")
      from False a None b Cons.prems(3) have t: "st' = st2" "tr = map (Pair (Some p)) c1 @ c2" "err = e2"
        by simp_all
      have r1: "draw_rel st st1" using drawPrimitive_rel [of st K views depthData vars p] a by simp
      have r2: "draw_rel st1 st'"
        using drawPrimitives_rel [of st1 K views depthData vars1 ps] b t by simp
      have mv1: "multiview st1" using draw_rel_static [OF r1] Cons.prems(1) by (simp add: static_def)
      from Cons.IH [OF mv1 Cons.prems(2)] b t obtain rest where
        i1: "concat (map (multiview_calls st' views) ps) = filter (\<lambda>tc. \<not> quiet (snd tc)) c2 @ rest"
        and i2: "err = None \<longrightarrow> rest = []" by blast
      have "multiview_calls st' views p = map (Pair (Some p)) (filter (\<lambda>c. \<not> quiet c) c1)"
        using s1 s2 None multiview_calls_rel [OF r2, of views p] by simp
      then have "concat (map (multiview_calls st' views) (p # ps))
            = filter (\<lambda>tc. \<not> quiet (snd tc)) tr @ rest"
        unfolding t(2) using i1 by (simp add: filter_tagged)
      with i2 show ?thesis by blast
    qed
  qed
qed

lemma drawBucket_multiview:
  assumes "multiview st" and "length views = 2"
    and "drawBucket K st views depthData b = (st', tr, err)"
  shows "\<exists>rest. concat (map (multiview_calls st' views) (bucket_prims b))
                 = filter (\<lambda>tc. \<not> quiet (snd tc)) tr @ rest
             \<and> (err = None \<longrightarrow> rest = [])"
proof (cases b)
  case None
  with assms show ?thesis by (auto simp: drawBucket_def)
next
  case (Some ps)
  show ?thesis
  proof (cases "ps = []")
    case True
    with Some assms show ?thesis by (auto simp: drawBucket_def)
  next
    case False
    with Some assms have "drawPrimitives K st views depthData (None, None, 0) ps = (st', tr, err)"
      by (simp add: drawBucket_def drawRenderPrimitiveSet_def)
    from drawPrimitives_multiview [OF assms(1,2) this] Some show ?thesis by simp
  qed
qed

lemma drawBuckets_multiview:
  assumes "multiview st" and "length views = 2"
    and "drawBuckets K st views depthData bs = (st', tr, err)"
  shows "\<exists>rest. concat (map (multiview_calls st' views) (concat (map bucket_prims bs)))
                 = filter (\<lambda>tc. \<not> quiet (snd tc)) tr @ rest
             \<and> (err = None \<longrightarrow> rest = [])"
  using assms
proof (induction bs arbitrary: st tr)
  case Nil
  then show ?case by simp
next
  case (Cons b bs)
  obtain st1 c1 e1 where a: "drawBucket K st views depthData b = (st1, c1, e1)"
    by (cases "drawBucket K st views depthData b")
  from drawBucket_multiview [OF Cons.prems(1,2) a] obtain rest1 where
    s1: "concat (map (multiview_calls st1 views) (bucket_prims b))
         = filter (\<lambda>tc. \<not> quiet (snd tc)) c1 @ rest1"
    and s2: "e1 = None \<longrightarrow> rest1 = []" by blast
  show ?case
  proof (cases e1)
    case (Some x)
    with a Cons.prems(3) have t: "st' = st1" "tr = c1" "err \<noteq> None" by auto
    have "concat (map (multiview_calls st' views) (concat (map bucket_prims (b # bs))))
          = filter (\<lambda>tc. \<not> quiet (snd tc)) tr
            @ (rest1 @ concat (map (multiview_calls st' views) (concat (map bucket_prims bs))))"
      using s1 t by simp
    with t(3) show ?thesis by blast
  next
    case None
    obtain st2 c2 e2 where d: "drawBuckets K st1 views depthData bs = (st2, c2, e2)"
      by (cases "drawBuckets K st1 views depthData bs")
    from a None d Cons.prems(3) have t: "st' = st2" "tr = c1 @ c2" "err = e2" by simp_all
    have r1: "draw_rel st st1" using drawBucket_rel [of st K views depthData b] a by simp
    have r2: "draw_rel st1 st'" using drawBuckets_rel [of st1 K views depthData bs] d t by simp
    have mv1: "multiview st1" using draw_rel_static [OF r1] Cons.prems(1) by (simp add: static_def)
    from Cons.IH [OF mv1 Cons.prems(2)] d t obtain rest where
      i1: "concat (map (multiview_calls st' views) (concat (map bucket_prims bs)))
           = filter (\<lambda>tc. \<not> quiet (snd tc)) c2 @ rest"
      and i2: "err = None \<longrightarrow> rest = []" by blast
    have e: "multiview_calls st1 views = multiview_calls st' views"
      using multiview_calls_rel [OF r2, of views] by auto
    have "concat (map (multiview_calls st' views) (concat (map bucket_prims (b # bs))))
          = filter (\<lambda>tc. \<not> quiet (snd tc)) tr @ rest"
      unfolding t(2) using s1 s2 None i1 e by simp
    with i2 show ?thesis by blast
  qed
qed

text \<open>
  Claim C8. Let \<^verbatim>\<open>drawViews\<close> be called with exactly two views on a renderer with
  hardware multiview active. Take from the calls of the frame the draw calls and the
  uploads of the LEFT and RIGHT projection and view matrices. What remains is, for each
  active render primitive in the order of the buckets: the four uploads
  \<^verbatim>\<open>LEFT_PROJECTION_MATRIX\<close>, \<^verbatim>\<open>LEFT_VIEW_MATRIX\<close>, \<^verbatim>\<open>RIGHT_PROJECTION_MATRIX\<close>,
  \<^verbatim>\<open>RIGHT_VIEW_MATRIX\<close> (of view 0 and view 1) once, and after them exactly one draw
  call for each active instance of the primitive. So there is one draw call for each
  pair of an active primitive and an active instance, not two, and the matrix pairs are
  uploaded once, before it. When an exception ends the frame early, the calls made are
  an initial part of these.
\<close>

theorem C8_multiview_single_draw:
  assumes "length views = 2" and "multiview st"
    and "drawViews K st views (Some rootNode) depthData = (st', tr, err)"
  shows "\<exists>rest. concat (map (multiview_calls st' views) (all_prims st'))
                 = filter (\<lambda>tc. \<not> quiet (snd tc)) tr @ rest
             \<and> (err = None \<longrightarrow> rest = [])"
proof -
  let ?st1 = "st\<lparr>frameId := Suc (frameId st)\<rparr>"
  from assms(3) obtain st2 c2 st3 c4 pre post where
    m: "Node_markActive ?st1 rootNode (Suc (frameId st)) = (st2, c2)"
    and st3: "st3 = st2\<lparr>cameraPositions := cameraLoop (cameraPositions st2) views [0..<length views]\<rparr>"
    and d: "drawBuckets K st3 views depthData (renderPrimitives st3) = (st', c4, err)"
    and tr: "tr = map (Pair None) pre @ c4 @ map (Pair None) post"
    and q: "list_all quiet pre" "list_all quiet post"
    by (auto elim: drawViews_phases)
  have mr: "mark_rel (Suc (frameId st)) ?st1 st2"
    using Node_markActive_rel(1) [of "Suc (frameId st)" ?st1 rootNode] m by simp
  have mv: "multiview st3"
    using mark_rel_static [OF mr] assms(2) st3 by (simp add: static_def)
  have dr: "draw_rel st3 st'"
    using drawBuckets_rel [of st3 K views depthData "renderPrimitives st3"] d by simp
  have rp: "renderPrimitives st' = renderPrimitives st3"
    using draw_rel_static [OF dr] by (simp add: static_def)
  have f: "filter (\<lambda>tc. \<not> quiet (snd tc)) tr = filter (\<lambda>tc. \<not> quiet (snd tc)) c4"
    unfolding tr using q by (simp add: filter_tagged filter_quiet)
  show ?thesis
    unfolding f using drawBuckets_multiview [OF mv assms(1) d] rp by (simp add: all_prims_def)
qed

section \<open>The camera positions of a frame\<close>

lemma cameraLoop_upt:
  assumes "k \<le> length cps"
  shows "length (cameraLoop cps views [k..<n]) = max (length cps) n
       \<and> (\<forall>i. k \<le> i \<and> i < n \<longrightarrow>
             cameraLoop cps views [k..<n] ! i
             = (case position (viewTransform (views ! i)) of
                  (x, y, z) \<Rightarrow> [fround x, fround y, fround z]))
       \<and> (\<forall>i. (i < k \<or> n \<le> i) \<and> i < length cps \<longrightarrow> cameraLoop cps views [k..<n] ! i = cps ! i)"
  using assms
proof (induction "n - k" arbitrary: k cps)
  case 0
  then have "[k..<n] = []" by simp
  with 0 show ?case by (auto simp: max_def)
next
  case (Suc d)
  then have kn: "k < n" by simp
  then have u: "[k..<n] = k # [Suc k..<n]" by (rule upt_conv_Cons)
  obtain x y z where p: "position (viewTransform (views ! k)) = (x, y, z)"
    by (cases "position (viewTransform (views ! k))")
  define cps1 where "cps1 = (if length cps \<le> k then cps @ [[F32 0, F32 0, F32 0]] else cps)"
  define cps2 where "cps2 = cps1[k := [fround x, fround y, fround z]]"
  have l1: "length cps1 = max (length cps) (Suc k)"
    using Suc.prems by (simp add: cps1_def max_def)
  then have l2: "length cps2 = max (length cps) (Suc k)" by (simp add: cps2_def)
  then have k2: "Suc k \<le> length cps2" by simp
  have d: "d = n - Suc k" using Suc.hyps(2) by simp
  note ih = Suc.hyps(1) [OF d k2]
  have e: "cameraLoop cps views [k..<n] = cameraLoop cps2 views [Suc k..<n]"
    unfolding u by (simp add: p cps1_def cps2_def Let_def)
  have a: "length (cameraLoop cps views [k..<n]) = max (length cps) n"
    unfolding e using ih l2 kn by (simp add: max_def)
  have b: "cameraLoop cps views [k..<n] ! i
           = (case position (viewTransform (views ! i)) of
                (x, y, z) \<Rightarrow> [fround x, fround y, fround z])"
    if "k \<le> i" "i < n" for i
  proof (cases "i = k")
    case True
    have "cameraLoop cps2 views [Suc k..<n] ! k = cps2 ! k" using ih k2 by simp
    also have "\<dots> = [fround x, fround y, fround z]" using l1 by (simp add: cps2_def)
    finally show ?thesis unfolding e using True p by simp
  next
    case False
    with that have "Suc k \<le> i" by simp
    with ih that(2) show ?thesis unfolding e by blast
  qed
  have c: "cameraLoop cps views [k..<n] ! i = cps ! i"
    if "i < k \<or> n \<le> i" "i < length cps" for i
  proof -
    from that kn have ik: "i \<noteq> k" by auto
    from that l2 have "i < length cps2" by simp
    moreover from that kn have "i < Suc k \<or> n \<le> i" by auto
    ultimately have "cameraLoop cps2 views [Suc k..<n] ! i = cps2 ! i" using ih by blast
    also have "\<dots> = cps1 ! i" using ik by (simp add: cps2_def)
    also have "\<dots> = cps ! i" using that(2) by (simp add: cps1_def nth_append)
    finally show ?thesis unfolding e .
  qed
  from a b c show ?case by blast
qed

lemma fround_0: "fround 0 = F32 0"
  by (simp add: fround_def)

text \<open>
  Claim C3. After \<^verbatim>\<open>drawViews\<close> the scratch array \<^verbatim>\<open>_cameraPositions\<close> is as long as
  it was, or as long as the list of views when that is longer (an entry is pushed only
  for an index the array does not have yet), and its entry for view \<open>i\<close> holds the
  position of the \<^verbatim>\<open>viewTransform\<close> of the view, each coordinate rounded to a 32-bit
  float by the store. For a view made from a rigid transform that is the rounded position
  of the transform, whose inverse gives the view matrix: it is the translation of the
  inverse of the view matrix, as long as the transform is what the platform makes it (its
  matrix and the matrix of its inverse are inverse to each other, and the translation of
  its matrix is its position rounded to 32-bit floats). For a view made from a raw
  \<^verbatim>\<open>Float32Array\<close> view matrix the entry is the origin whatever the matrix is, since
  the constructor stores \<^verbatim>\<open>new XRRigidTransform()\<close> there.
\<close>

theorem C3_camera_positions:
  assumes "drawViews K st views (Some rootNode) depthData = (st', tr, err)"
    and "i < length views"
  shows "length (cameraPositions st') = max (length (cameraPositions st)) (length views)
     \<and> (\<forall>proj t vp e. views ! i = RenderView proj (Transform t) vp e \<longrightarrow>
           viewMatrix (views ! i) = inverse_matrix t
           \<and> cameraPositions st' ! i
             = (case position t of (x, y, z) \<Rightarrow> [fround x, fround y, fround z])
           \<and> (inverse_of (inverse_matrix t) (matrix t)
                \<and> (case mat4_translation (matrix t) of (a, b, c) \<Rightarrow> [F32 a, F32 b, F32 c])
                    = (case position t of (x, y, z) \<Rightarrow> [fround x, fround y, fround z])
                \<longrightarrow> (\<exists>w. inverse_of (viewMatrix (views ! i)) w
                         \<and> cameraPositions st' ! i
                           = (case mat4_translation w of (a, b, c) \<Rightarrow> [F32 a, F32 b, F32 c]))))
     \<and> (\<forall>proj m vp e. views ! i = RenderView proj (Float32Array m) vp e \<longrightarrow>
           viewMatrix (views ! i) = m \<and> cameraPositions st' ! i = [F32 0, F32 0, F32 0])"
proof -
  let ?st1 = "st\<lparr>frameId := Suc (frameId st)\<rparr>"
  from assms(1) obtain st2 c2 st3 c4 pre post where
    m: "Node_markActive ?st1 rootNode (Suc (frameId st)) = (st2, c2)"
    and st3: "st3 = st2\<lparr>cameraPositions := cameraLoop (cameraPositions st2) views [0..<length views]\<rparr>"
    and d: "drawBuckets K st3 views depthData (renderPrimitives st3) = (st', c4, err)"
    and tr: "tr = map (Pair None) pre @ c4 @ map (Pair None) post"
    by (auto elim: drawViews_phases)
  have mr: "mark_rel (Suc (frameId st)) ?st1 st2"
    using Node_markActive_rel(1) [of "Suc (frameId st)" ?st1 rootNode] m by simp
  have c2: "cameraPositions st2 = cameraPositions st"
    using mark_rel_static [OF mr] by (simp add: static_def)
  have dr: "draw_rel st3 st'"
    using drawBuckets_rel [of st3 K views depthData "renderPrimitives st3"] d by simp
  have c3: "cameraPositions st' = cameraLoop (cameraPositions st) views [0..<length views]"
    using draw_rel_static [OF dr] st3 c2 by (simp add: static_def)
  note l = cameraLoop_upt [of 0 "cameraPositions st" views "length views"]
  have a: "length (cameraPositions st') = max (length (cameraPositions st)) (length views)"
    unfolding c3 using l by simp
  have b: "cameraPositions st' ! i
           = (case position (viewTransform (views ! i)) of
                (x, y, z) \<Rightarrow> [fround x, fround y, fround z])"
    unfolding c3 using l assms(2) by simp
  have c: "viewMatrix (views ! i) = inverse_matrix t
           \<and> cameraPositions st' ! i
             = (case position t of (x, y, z) \<Rightarrow> [fround x, fround y, fround z])
           \<and> (inverse_of (inverse_matrix t) (matrix t)
                \<and> (case mat4_translation (matrix t) of (a, b, c) \<Rightarrow> [F32 a, F32 b, F32 c])
                    = (case position t of (x, y, z) \<Rightarrow> [fround x, fround y, fround z])
                \<longrightarrow> (\<exists>w. inverse_of (viewMatrix (views ! i)) w
                         \<and> cameraPositions st' ! i
                           = (case mat4_translation w of (a, b, c) \<Rightarrow> [F32 a, F32 b, F32 c])))"
    if "views ! i = RenderView proj (Transform t) vp e" for proj t vp e
  proof -
    from that have v: "viewMatrix (views ! i) = inverse_matrix t" "viewTransform (views ! i) = t"
      by (simp_all add: RenderView_def)
    with b have p: "cameraPositions st' ! i
        = (case position t of (x, y, z) \<Rightarrow> [fround x, fround y, fround z])"
      by simp
    from v p show ?thesis by auto
  qed
  have d: "viewMatrix (views ! i) = m \<and> cameraPositions st' ! i = [F32 0, F32 0, F32 0]"
    if "views ! i = RenderView proj (Float32Array m) vp e" for proj m vp e
    using that b by (simp add: RenderView_def XRRigidTransform_def fround_0)
  from a c d show ?thesis by blast
qed

section \<open>The frames of the examples\<close>

lemma tr0_complete:
  "multiview s0 \<and> snd (snd (drawViews K0 s0 [view0, view1] (Some scene0) None)) = None"
  by code_simp

lemma tr0_filtered:
  "all_prims (fst (drawViews K0 s0 [view0, view1] (Some scene0) None)) = [1, 0]
   \<and> map fst (filter (\<lambda>tc. is_draw (snd tc)) tr0) = [Some 1, Some 0]"
  by code_simp

theorem C8_multiview_single_draw_witness:
  "length [view0, view1] = 2 \<and> multiview s0
   \<and> snd (snd (drawViews K0 s0 [view0, view1] (Some scene0) None)) = None
   \<and> all_prims (fst (drawViews K0 s0 [view0, view1] (Some scene0) None)) = [1, 0]
   \<and> map fst (filter (\<lambda>tc. is_draw (snd tc)) tr0) = [Some 1, Some 0]
   \<and> filter (\<lambda>tc. \<not> quiet (snd tc)) tr0
     = multiview_calls (fst (drawViews K0 s0 [view0, view1] (Some scene0) None)) [view0, view1] 1
       @ multiview_calls (fst (drawViews K0 s0 [view0, view1] (Some scene0) None)) [view0, view1] 0"
proof -
  define st' where "st' = fst (drawViews K0 s0 [view0, view1] (Some scene0) None)"
  have d: "drawViews K0 s0 [view0, view1] (Some scene0) None = (st', tr0, None)"
    using tr0_complete
    by (cases "drawViews K0 s0 [view0, view1] (Some scene0) None") (simp add: st'_def tr0_def)
  have l: "length [view0, view1] = 2" by simp
  from tr0_complete have mv: "multiview s0" by blast
  note t = C8_multiview_single_draw [OF l mv d]
  from tr0_filtered have a: "all_prims st' = [1, 0]" by (simp add: st'_def)
  from t a have "filter (\<lambda>tc. \<not> quiet (snd tc)) tr0
     = multiview_calls st' [view0, view1] 1 @ multiview_calls st' [view0, view1] 0" by auto
  then show ?thesis
    using tr0_complete tr0_filtered unfolding st'_def by simp
qed

lemma view_matrix0_inverse:
  "inverse_of view_matrix0 camera_matrix0 \<and> inverse_of camera_matrix0 view_matrix0
   \<and> mat4_translation camera_matrix0 = (- 1, - 2, - 3)
   \<and> mat4_translation view_matrix0 = (1, 2, 3)"
  by code_simp

lemma views_made:
  "[view0, view2] ! 0 = RenderView mat4_identity (Float32Array view_matrix0) None ''left''
   \<and> [view0, view2] ! 1 = RenderView mat4_identity (Transform transform0) None ''right''"
  by (simp add: view0_def view2_def)

text \<open>Some stores into a \<^verbatim>\<open>Float32Array\<close>: small integers are kept, \<^verbatim>\<open>16777217\<close> and
  \<^verbatim>\<open>0.1\<close> are rounded, and the greatest float plus half a step overflows.\<close>

lemma fround_examples:
  "fround 1 = F32 1 \<and> fround 2 = F32 2 \<and> fround 3 = F32 3
   \<and> fround 16777217 = F32 16777216
   \<and> fround (1 / 10) = F32 (13421773 / 134217728)
   \<and> fround (2 ^ 128 - 2 ^ 103) = F32_Infinity
   \<and> fround (- (2 ^ 128)) = F32_NegInfinity"
  by code_simp

theorem C3_camera_positions_witness:
  "inverse_of view_matrix0 camera_matrix0 \<and> mat4_translation camera_matrix0 = (- 1, - 2, - 3)
   \<and> viewMatrix ([view0, view2] ! 0) = view_matrix0
   \<and> cameraPositions (fst (drawViews K0 s0 [view0, view2] (Some scene0) None)) ! 0
       = [F32 0, F32 0, F32 0]
   \<and> inverse_of camera_matrix0 view_matrix0 \<and> mat4_translation view_matrix0 = (1, 2, 3)
   \<and> viewMatrix ([view0, view2] ! 1) = camera_matrix0
   \<and> cameraPositions (fst (drawViews K0 s0 [view0, view2] (Some scene0) None)) ! 1
       = [F32 1, F32 2, F32 3]"
proof -
  obtain st' tr err where d: "drawViews K0 s0 [view0, view2] (Some scene0) None = (st', tr, err)"
    by (cases "drawViews K0 s0 [view0, view2] (Some scene0) None")
  have i0: "0 < length [view0, view2]" and i1: "1 < length [view0, view2]" by simp_all
  from views_made
  have v0: "[view0, view2] ! 0 = RenderView mat4_identity (Float32Array view_matrix0) None ''left''"
    and v1: "[view0, view2] ! 1 = RenderView mat4_identity (Transform transform0) None ''right''"
    by blast+
  from C3_camera_positions [OF d i0] v0
  have a: "viewMatrix ([view0, view2] ! 0) = view_matrix0
           \<and> cameraPositions st' ! 0 = [F32 0, F32 0, F32 0]"
    by blast
  from C3_camera_positions [OF d i1] v1
  have "viewMatrix ([view0, view2] ! 1) = inverse_matrix transform0
        \<and> cameraPositions st' ! 1
          = (case position transform0 of (x, y, z) \<Rightarrow> [fround x, fround y, fround z])"
    by blast
  then have b: "viewMatrix ([view0, view2] ! 1) = camera_matrix0
                \<and> cameraPositions st' ! 1 = [F32 1, F32 2, F32 3]"
    using fround_examples by (simp add: transform0_def)
  from a b view_matrix0_inverse d show ?thesis by simp
qed

section \<open>The texture cache over the life of a renderer\<close>

lemma cache_kept_refl: "cache_kept st st"
  by (simp add: cache_kept_def)

lemma cache_kept_trans: "cache_kept st st1 \<Longrightarrow> cache_kept st1 st2 \<Longrightarrow> cache_kept st st2"
  by (simp add: cache_kept_def)

lemma cache_kept_same: "textureCache st' = textureCache st \<Longrightarrow> cache_kept st st'"
  by (simp add: cache_kept_def)

lemma getRenderTexture_cache: "cache_kept st (fst (getRenderTexture st tx))"
proof (cases tx)
  case None
  then show ?thesis by (simp add: getRenderTexture_def cache_kept_refl)
next
  case (Some t)
  show ?thesis
  proof (cases "textureKey t")
    case None
    with Some show ?thesis by (simp add: getRenderTexture_def cache_kept_refl)
  next
    case (Some key)
    show ?thesis
    proof (cases "key = [] \<or> key \<in> set object_prototype_keys \<or> textureCache st key \<noteq> None")
      case True
      with Some \<open>tx = Some t\<close> show ?thesis
        by (auto simp: getRenderTexture_def cache_kept_refl)
    next
      case False
      obtain st1 c res where g: "getRenderTexture st (Some t) = (st1, c, res)"
        by (cases "getRenderTexture st (Some t)")
      from False have "key \<noteq> []" "key \<notin> set object_prototype_keys" "textureCache st key = None"
        by simp_all
      from getRenderTexture_miss [OF Some this g]
      have "textureCache st1 = (textureCache st)(key := Some (next_texture st))" by simp
      with \<open>textureCache st key = None\<close> have "cache_kept st st1" by (auto simp: cache_kept_def)
      with g \<open>tx = Some t\<close> show ?thesis by simp
    qed
  qed
qed

lemma make_samplers_cache: "cache_kept st (fst (make_samplers st ms i))"
proof (induction ms arbitrary: st i)
  case Nil
  show ?case by (simp add: cache_kept_refl)
next
  case (Cons a ms)
  obtain n tx where a: "a = (n, tx)" by (cases a)
  obtain st1 c1 r1 where g: "getRenderTexture st tx = (st1, c1, r1)" by (cases "getRenderTexture st tx")
  have r1: "cache_kept st st1" using getRenderTexture_cache [of st tx] g by simp
  show ?case
  proof (cases r1)
    case (Inl e)
    with a g r1 show ?thesis by simp
  next
    case (Inr r)
    obtain st2 c2 r2 where m: "make_samplers st1 ms (Suc i) = (st2, c2, r2)"
      by (cases "make_samplers st1 ms (Suc i)")
    have "cache_kept st1 st2" using Cons.IH [of st1 "Suc i"] m by simp
    with r1 have "cache_kept st st2" by (rule cache_kept_trans)
    with a g Inr m show ?thesis by (cases r2) simp_all
  qed
qed

lemma getMaterialProgram_cache: "cache_kept st (fst (getMaterialProgram st mat rp))"
  by (simp add: getMaterialProgram_def Let_def cache_kept_def split: option.splits)

lemma RenderMaterial_cache: "cache_kept st (fst (RenderMaterial K st mat prog))"
proof -
  obtain st1 c1 r1 where m: "make_samplers st (m_samplers mat) 0 = (st1, c1, r1)"
    by (cases "make_samplers st (m_samplers mat) 0")
  have r: "cache_kept st st1" using make_samplers_cache [of st "m_samplers mat" 0] m by simp
  show ?thesis
  proof (cases r1)
    case (Inl e)
    with m r show ?thesis by (simp add: RenderMaterial_def)
  next
    case (Inr ss)
    have "cache_kept st1 (st1\<lparr>next_material := n, materials := M\<rparr>)" for n M
      by (simp add: cache_kept_def)
    with r have "cache_kept st (st1\<lparr>next_material := n, materials := M\<rparr>)" for n M
      by (rule cache_kept_trans)
    with m Inr show ?thesis by (simp add: RenderMaterial_def Let_def)
  qed
qed

lemma setPrimitive_cache: "textureCache (setPrimitive st p g) = textureCache st"
  by (cases "rp_material (prims st p)"; cases "p_indexBuffer g")
     (simp_all add: setPrimitive_def waitForComplete_def Let_def)

lemma setRenderMaterial_cache: "textureCache (setRenderMaterial st p m) = textureCache st"
  by (cases m) (simp_all add: setRenderMaterial_def waitForComplete_def Let_def)

lemma RenderPrimitive_cache: "textureCache (fst (RenderPrimitive st g)) = textureCache st"
  by (simp add: RenderPrimitive_def Let_def setPrimitive_cache)

lemma createRenderPrimitive_cache: "cache_kept st (fst (createRenderPrimitive K st g mat))"
proof -
  obtain st1 P where rp: "RenderPrimitive st g = (st1, P)" by (cases "RenderPrimitive st g")
  obtain st2 c2 r2 where gm: "getMaterialProgram st1 mat (prims st1 P) = (st2, c2, r2)"
    by (cases "getMaterialProgram st1 mat (prims st1 P)")
  have k1: "cache_kept st st1" using RenderPrimitive_cache [of st g] rp by (simp add: cache_kept_same)
  have k2: "cache_kept st1 st2" using getMaterialProgram_cache [of st1 mat "prims st1 P"] gm by simp
  have k12: "cache_kept st st2" using k1 k2 by (rule cache_kept_trans)
  show ?thesis
  proof (cases r2)
    case (Inl e)
    with rp gm k12 show ?thesis by (simp add: createRenderPrimitive_def)
  next
    case (Inr prog)
    obtain st3 c3 r3 where rm: "RenderMaterial K st2 mat prog = (st3, c3, r3)"
      by (cases "RenderMaterial K st2 mat prog")
    have k3: "cache_kept st2 st3" using RenderMaterial_cache [of st2 K mat prog] rm by simp
    have k13: "cache_kept st st3" using k12 k3 by (rule cache_kept_trans)
    show ?thesis
    proof (cases r3)
      case (Inl e)
      with rp gm Inr rm k13 show ?thesis by (simp add: createRenderPrimitive_def)
    next
      case m: (Inr m)
      have "cache_kept st3 ((setRenderMaterial st3 P (Some m))\<lparr>renderPrimitives := b\<rparr>)" for b
        by (rule cache_kept_same) (simp add: setRenderMaterial_cache)
      with k13 have "cache_kept st ((setRenderMaterial st3 P (Some m))\<lparr>renderPrimitives := b\<rparr>)" for b
        by (rule cache_kept_trans)
      with rp gm Inr rm m show ?thesis by (simp add: createRenderPrimitive_def Let_def)
    qed
  qed
qed

lemma step_cache: "cache_kept st (fst (step K st ev))"
proof (cases "event_ok st ev")
  case False
  then show ?thesis by (simp add: step_def cache_kept_refl)
next
  case ok: True
  show ?thesis
  proof (cases ev)
    case (EvCreateRenderBuffer target data usage)
    have "cache_kept st (fst (createRenderBuffer st target data usage))"
      by (rule cache_kept_same) (simp add: createRenderBuffer_def Let_def split: buffer_data.splits)
    with ok EvCreateRenderBuffer show ?thesis by (simp add: fst_step)
  next
    case (EvResolveBuffer b n)
    have "cache_kept st (fst (resolveBuffer st b n))"
      by (rule cache_kept_same) (simp add: resolveBuffer_def Let_def)
    with ok EvResolveBuffer show ?thesis by (simp add: fst_step)
  next
    case (EvCreateRenderPrimitive g mat)
    with ok createRenderPrimitive_cache [of st K g mat] show ?thesis by (simp add: fst_step)
  next
    case (EvAddInstance p n)
    have "cache_kept st (addInstance st p n)"
      by (rule cache_kept_same) (simp add: addInstance_def)
    with ok EvAddInstance show ?thesis by (simp add: fst_step)
  next
    case (EvSetRenderMaterial p m)
    have "cache_kept st (setRenderMaterial st p m)"
      by (rule cache_kept_same) (rule setRenderMaterial_cache)
    with ok EvSetRenderMaterial show ?thesis by (simp add: fst_step)
  next
    case (EvSetPrimitive p g)
    have "cache_kept st (setPrimitive st p g)"
      by (rule cache_kept_same) (rule setPrimitive_cache)
    with ok EvSetPrimitive show ?thesis by (simp add: fst_step)
  next
    case (EvRunTask j)
    have "cache_kept st (fst (runTask st j))"
      by (rule cache_kept_same)
         (simp add: runTask_def uploadTexture_def Let_def split: task.splits)
    with ok EvRunTask show ?thesis by (simp add: fst_step)
  next
    case (EvVideoPlaying r tx)
    have "cache_kept st (videoPlaying st r tx)"
      by (rule cache_kept_same) (simp add: videoPlaying_def)
    with ok EvVideoPlaying show ?thesis by (simp add: fst_step)
  next
    case (EvVideoState v b)
    with ok show ?thesis by (simp add: fst_step cache_kept_def)
  next
    case (EvWorldMatrix n m)
    with ok show ?thesis by (simp add: fst_step cache_kept_def)
  next
    case (EvDrawViews views rootNode depthData)
    obtain st1 tr err where d: "drawViews K st views rootNode depthData = (st1, tr, err)"
      by (cases "drawViews K st views rootNode depthData")
    from drawViews_effect [OF d] have "cache_kept st st1" by (simp add: cache_kept_same)
    with ok EvDrawViews d show ?thesis by (simp add: fst_step)
  qed
qed

lemma run_cache: "cache_kept st (run K st evs)"
proof (induction evs arbitrary: st)
  case Nil
  show ?case by (simp add: cache_kept_refl)
next
  case (Cons ev evs)
  have "cache_kept st (fst (step K st ev))" by (rule step_cache)
  moreover have "cache_kept (fst (step K st ev)) (run K (fst (step K st ev)) evs)" by (rule Cons.IH)
  ultimately show ?case by (simp add: cache_kept_trans)
qed

text \<open>
  Claim C5. When a texture descriptor has been resolved by \<^verbatim>\<open>_getRenderTexture\<close>, then,
  at once or after anything else has happened to the renderer (primitives created,
  buffers and images arriving, frames drawn), resolving a descriptor with the same
  \<^verbatim>\<open>textureKey\<close> returns the same object, hence the same texture handle, makes no WebGL
  call (no allocation, no upload, no sampler parameter) and leaves the renderer and every
  render texture as they are.
\<close>

theorem C5_same_key_same_texture:
  assumes "getRenderTexture st (Some tx1) = (st1, c1, Inr r)"
    and "st2 = run K st1 evs"
    and "textureKey tx2 = textureKey tx1"
  shows "getRenderTexture st2 (Some tx2) = (st2, [], Inr r)"
proof (cases "textureKey tx1")
  case None
  with assms(1) show ?thesis by (simp add: getRenderTexture_def)
next
  case (Some key)
  show ?thesis
  proof (cases "key = []")
    case True
    with Some assms(1) show ?thesis by (simp add: getRenderTexture_def)
  next
    case ne: False
    show ?thesis
    proof (cases "key \<in> set object_prototype_keys")
      case True
      from getRenderTexture_proto [OF Some ne True, of st] assms(1)
      have "r = TexProto key" by simp
      then show ?thesis
        using getRenderTexture_proto [OF _ ne True, of tx2 st2] Some assms(3) by simp
    next
      case np: False
      have "\<exists>t. r = TexObj t \<and> textureCache st1 key = Some t"
      proof (cases "textureCache st key")
        case (Some t)
        from getRenderTexture_hit [OF \<open>textureKey tx1 = Some key\<close> ne np Some] assms(1)
        show ?thesis using Some by simp
      next
        case None
        from getRenderTexture_miss [OF \<open>textureKey tx1 = Some key\<close> ne np None assms(1)]
        show ?thesis by simp
      qed
      then obtain t where t: "r = TexObj t" "textureCache st1 key = Some t" by blast
      have "cache_kept st1 st2" unfolding assms(2) by (rule run_cache)
      with t(2) have "textureCache st2 key = Some t" by (simp add: cache_kept_def)
      from getRenderTexture_hit [OF _ ne np this, of tx2] Some assms(3) t(1)
      show ?thesis by simp
    qed
  qed
qed

lemma tex_0x4_resolved: "snd (snd (getRenderTexture r0 (Some tex_0x4))) = Inr (TexObj 0)"
  by (simp add: getRenderTexture_def r0_def Renderer_def tex_0x4_def tex_0x3_def
      object_prototype_keys_def Let_def)

theorem C5_same_key_same_texture_witness:
  "snd (snd (getRenderTexture r0 (Some tex_0x4))) = Inr (TexObj 0)
   \<and> textureKey tex_0x3 = textureKey tex_0x4
   \<and> getRenderTexture (run K0 (fst (getRenderTexture r0 (Some tex_0x4))) evs0) (Some tex_0x3)
       = (run K0 (fst (getRenderTexture r0 (Some tex_0x4))) evs0, [], Inr (TexObj 0))"
proof -
  have b: "textureKey tex_0x3 = textureKey tex_0x4"
    by (simp add: tex_0x4_def tex_0x3_def)
  have c: "getRenderTexture r0 (Some tex_0x4)
      = (fst (getRenderTexture r0 (Some tex_0x4)), fst (snd (getRenderTexture r0 (Some tex_0x4))),
         Inr (TexObj 0))"
    using tex_0x4_resolved by (simp add: prod_eq_iff)
  show ?thesis using C5_same_key_same_texture [OF c refl b, of K0 evs0] tex_0x4_resolved b by simp
qed

end
